theory Spec2Isabelle
  imports Main "HOL-Library.Word"
begin

section \<open>bin2iso: converting a raw BIN sector image to ISO\<close>

text \<open>
  The model follows \<^verbatim>\<open>src/bin2iso.c\<close> from the point where \<^verbatim>\<open>main\<close> opens the
  destination (line 104) to its exit. The things \<^verbatim>\<open>main\<close> touches are kept in one
  record: the source stream (its bytes and its read position), the destination (the
  bytes that have reached the file, and the bytes that \<^verbatim>\<open>fwrite\<close> has accepted and
  the stream still holds in its buffer), the \<^verbatim>\<open>char buf[2352]\<close> scratch array, and
  what has been sent to \<^verbatim>\<open>warn\<close>.

  What the model takes from the environment:
  \<^item> the source has been opened (line 101) and is a regular file shorter than
    \<^verbatim>\<open>LONG_MAX\<close>, so that \<^verbatim>\<open>fseek\<close> and \<^verbatim>\<open>ftell\<close> on it succeed and \<^verbatim>\<open>img_sz\<close> is its
    length; \<^verbatim>\<open>fread\<close> of one item of \<open>sz\<close> bytes fails exactly when fewer than \<open>sz\<close>
    bytes are left;
  \<^item> the destination file accepts \<open>room\<close> bytes. The program never sets the
    buffering of the destination stream, so when \<^verbatim>\<open>fwrite\<close> hands bytes on to the file
    is the C library's choice: \<open>policy p sz\<close> is the number of bytes it hands on when an
    item of \<open>sz\<close> bytes arrives while \<open>p\<close> bytes are buffered (0 as long as the item
    fits into the buffer, \<open>p + sz\<close> for an unbuffered stream). \<^verbatim>\<open>fwrite\<close> fails only
    when the bytes it hands on do not all fit; the file then takes the bytes that
    do. Every statement below holds for every \<open>policy\<close>;
  \<^item> source and destination are different files;
  \<^item> \<^verbatim>\<open>buf\<close> is not initialised by the program: its first contents \<open>buf0\<close> are
    arbitrary.
  A byte is an \<open>8 word\<close>: \<^verbatim>\<open>char\<close> values are only compared for equality with each
  other and with 1 and 2, which does not depend on the signedness of \<^verbatim>\<open>char\<close>.
  A message records the arguments handed to \<^verbatim>\<open>warn\<close> or \<^verbatim>\<open>die\<close>, not the
  formatted text.
\<close>

type_synonym byte = "8 word"

definition MODE_OFFSET :: nat where
  "MODE_OFFSET = 15"

definition SYNC_HEADER :: "byte list" where
  "SYNC_HEADER = [0, 0xFF, 0xFF, 0xFF, 0xFF, 0xFF, 0xFF, 0xFF, 0xFF, 0xFF, 0xFF, 0]"

datatype message =
    Size_warning nat nat \<comment> \<open>sector size, dropped bytes (line 136)\<close>
  | Mode_warning nat byte byte \<comment> \<open>sector index, mode found, mode expected (line 145)\<close>

datatype fatal =
    Dest_unwritable \<comment> \<open>"Cannot write to destination file"\<close>
  | Read_error
  | Write_error
  | Unsupported_mode byte \<comment> \<open>"Unsupported track mode %u"\<close>

record state =
  src :: "byte list"
  src_pos :: nat
  dst :: "byte list"
  pending :: "byte list"
  room :: nat
  policy :: "nat \<Rightarrow> nat \<Rightarrow> nat"
  buf :: "byte list"
  stderr :: "message list"

text \<open>
  \<^verbatim>\<open>fclose(dst)\<close>: what the stream still holds goes to the file as far as there is
  room. \<^verbatim>\<open>main\<close> does not look at the result (line 151). \<^verbatim>\<open>exit\<close> does the same to
  a stream that is still open.
\<close>

definition fclose_dst :: "state \<Rightarrow> state" where
  "fclose_dst s =
     s\<lparr>dst := dst s @ take (room s - length (dst s)) (pending s), pending := []\<rparr>"

text \<open>\<open>Inl (e, s)\<close>: the process exited through \<^verbatim>\<open>die\<close> with \<open>e\<close>, leaving \<open>s\<close>.\<close>

type_synonym 'a result = "(fatal \<times> state) + 'a"

definition warn :: "message \<Rightarrow> state \<Rightarrow> state" where
  "warn m s = s\<lparr>stderr := stderr s @ [m]\<rparr>"

definition die :: "fatal \<Rightarrow> state \<Rightarrow> 'a result" where
  "die e s = Inl (e, fclose_dst s)"

text \<open>
  \<^verbatim>\<open>fread(buf, sz, 1, src)\<close>: the number of items read, 1 or 0. The bytes read overwrite
  the start of \<open>buf\<close>; when fewer than \<open>sz\<close> bytes are left, these are read and no
  item is complete.
\<close>

definition fread :: "nat \<Rightarrow> state \<Rightarrow> nat \<times> state" where
  "fread sz s =
     (let rest = drop (src_pos s) (src s) in
      if src_pos s + sz \<le> length (src s)
      then (1, s\<lparr>buf := take sz rest @ drop sz (buf s), src_pos := src_pos s + sz\<rparr>)
      else (0, s\<lparr>buf := rest @ drop (length rest) (buf s),
                 src_pos := src_pos s + length rest\<rparr>))"

definition xfread :: "nat \<Rightarrow> state \<Rightarrow> state result" where
  "xfread sz s =
     (case fread sz s of (n, s') \<Rightarrow> if n \<noteq> 1 then die Read_error s' else Inr s')"

text \<open>
  \<^verbatim>\<open>fwrite(item, sz, 1, dst)\<close>: the number of items written, 1 or 0. The item joins the
  bytes the stream holds; the library hands the first \<open>n\<close> of them on to the file,
  \<open>n\<close> being its choice, and the call fails when the file has no room for them.
\<close>

definition fwrite :: "byte list \<Rightarrow> state \<Rightarrow> nat \<times> state" where
  "fwrite item s =
     (let queue = pending s @ item;
          n = min (policy s (length (pending s)) (length item)) (length queue);
          fit = room s - length (dst s)
      in if n \<le> fit
         then (1, s\<lparr>dst := dst s @ take n queue, pending := drop n queue\<rparr>)
         else (0, s\<lparr>dst := dst s @ take fit queue, pending := drop fit queue\<rparr>))"

text \<open>\<^verbatim>\<open>xfwrite(&buf[off], sz, dst)\<close>.\<close>

definition xfwrite :: "nat \<Rightarrow> nat \<Rightarrow> state \<Rightarrow> state result" where
  "xfwrite off sz s =
     (case fwrite (take sz (drop off (buf s))) s of
        (n, s') \<Rightarrow> if n \<noteq> 1 then die Write_error s' else Inr s')"

text \<open>\<^verbatim>\<open>fopen(dstname, "wb")\<close> truncates the file.\<close>

definition fopen_wb :: "bool \<Rightarrow> state \<Rightarrow> state result" where
  "fopen_wb writable s =
     (if writable then Inr (s\<lparr>dst := [], pending := []\<rparr>) else die Dest_unwritable s)"

text \<open>\<^verbatim>\<open>xfseek(src, 0L, SEEK_END)\<close>, \<^verbatim>\<open>ftell(src)\<close> and \<^verbatim>\<open>rewind(src)\<close>.\<close>

definition xfseek_end :: "state \<Rightarrow> state" where
  "xfseek_end s = s\<lparr>src_pos := length (src s)\<rparr>"

definition ftell :: "state \<Rightarrow> nat" where
  "ftell s = src_pos s"

definition rewind :: "state \<Rightarrow> state" where
  "rewind s = s\<lparr>src_pos := 0\<rparr>"

text \<open>
  Lines 109 to 128 of \<^verbatim>\<open>main\<close>: the values given to \<^verbatim>\<open>mode\<close>, \<^verbatim>\<open>hdr_sz\<close> and
  \<^verbatim>\<open>sector_sz\<close>. \<^verbatim>\<open>memcmp\<close> compares \<^verbatim>\<open>sizeof SYNC_HEADER\<close> bytes.
\<close>

definition main_detect :: "state \<Rightarrow> (byte \<times> nat \<times> nat) result" where
  "main_detect s =
     (if take (length SYNC_HEADER) (buf s) \<noteq> SYNC_HEADER
      then Inr (0, 8, 2336)
      else let mode = buf s ! MODE_OFFSET in
        if mode = 2 then Inr (mode, 24, 2352)
        else if mode = 1 then Inr (mode, 16, 2352)
        else die (Unsupported_mode mode) s)"

text \<open>Lines 143 to 148: the body of the sector loop.\<close>

definition main_sector :: "nat \<Rightarrow> nat \<Rightarrow> nat \<Rightarrow> byte \<Rightarrow> state \<Rightarrow> state result" where
  "main_sector i hdr_sz sector_sz mode s =
     (case xfread sector_sz s of
        Inl e \<Rightarrow> Inl e
      | Inr s1 \<Rightarrow>
          xfwrite hdr_sz 2048
            (if mode \<noteq> 0 \<and> buf s1 ! MODE_OFFSET \<noteq> mode
             then warn (Mode_warning i (buf s1 ! MODE_OFFSET) mode) s1
             else s1))"

text \<open>Line 142: \<^verbatim>\<open>for (long i = 0; i < nr_sectors; i++)\<close>, entered with \<open>i\<close>.\<close>

function main_loop :: "nat \<Rightarrow> nat \<Rightarrow> nat \<Rightarrow> nat \<Rightarrow> byte \<Rightarrow> state \<Rightarrow> state result" where
  "main_loop i nr_sectors hdr_sz sector_sz mode s =
     (if i < nr_sectors
      then (case main_sector i hdr_sz sector_sz mode s of
              Inl e \<Rightarrow> Inl e
            | Inr s' \<Rightarrow> main_loop (i + 1) nr_sectors hdr_sz sector_sz mode s')
      else Inr s)"
  by pat_completeness auto
termination
  by (relation "measure (\<lambda>(i, nr_sectors, _). nr_sectors - i)") auto

declare main_loop.simps [simp del]

text \<open>
  \<^verbatim>\<open>main\<close> from line 104: \<open>img\<close> is the source file, \<open>old\<close> what the destination file
  held before the run, \<open>writable\<close> whether it can be opened for writing, \<open>space\<close> the
  number of bytes it accepts, \<open>pol\<close> the buffering of the destination stream and
  \<open>buf0\<close> the first contents of \<^verbatim>\<open>buf\<close>. \<open>Inr s\<close> is \<^verbatim>\<open>exit(EXIT_SUCCESS)\<close>, leaving \<open>s\<close>.
\<close>

definition main ::
  "byte list \<Rightarrow> byte list \<Rightarrow> bool \<Rightarrow> nat \<Rightarrow> (nat \<Rightarrow> nat \<Rightarrow> nat) \<Rightarrow> byte list \<Rightarrow> state result" where
  "main img old writable space pol buf0 =
     (case fopen_wb writable
             \<lparr>src = img, src_pos = 0, dst = old, pending = [], room = space, policy = pol,
              buf = buf0, stderr = []\<rparr> of
        Inl e \<Rightarrow> Inl e
      | Inr s1 \<Rightarrow>
     (case xfread 16 s1 of
        Inl e \<Rightarrow> Inl e
      | Inr s2 \<Rightarrow>
     (case main_detect s2 of
        Inl e \<Rightarrow> Inl e
      | Inr (mode, hdr_sz, sector_sz) \<Rightarrow>
          let s3 = xfseek_end s2;
              img_sz = ftell s3;
              tail_sz = img_sz mod sector_sz;
              s4 = (if tail_sz \<noteq> 0 then warn (Size_warning sector_sz tail_sz) s3 else s3);
              nr_sectors = img_sz div sector_sz
          in (case main_loop 0 nr_sectors hdr_sz sector_sz mode (rewind s4) of
                Inl e \<Rightarrow> Inl e
              | Inr s5 \<Rightarrow> Inr (fclose_dst s5)))))"

text \<open>
  What a run leaves behind: the error it died with, if any, and the state it exited in.
\<close>

definition failure :: "state result \<Rightarrow> fatal option" where
  "failure r = (case r of Inl (e, s) \<Rightarrow> Some e | Inr s \<Rightarrow> None)"

definition final :: "state result \<Rightarrow> state" where
  "final r = (case r of Inl (e, s) \<Rightarrow> s | Inr s \<Rightarrow> s)"

section \<open>Reading a sector and extracting its payload\<close>

lemma take_drop_payload:
  assumes "hdr + 2048 \<le> sz" "p + sz \<le> length xs"
  shows "take 2048 (drop hdr (take sz (drop p xs) @ ys)) = take 2048 (drop (p + hdr) xs)"
proof -
  have len: "length (take sz (drop p xs)) = sz"
    using assms by simp
  have "drop hdr (take sz (drop p xs) @ ys) = drop hdr (take sz (drop p xs)) @ ys"
    using assms len by simp
  moreover have "drop hdr (take sz (drop p xs)) = take (sz - hdr) (drop (p + hdr) xs)"
    by (simp add: drop_take add.commute)
  moreover have "2048 \<le> length (take (sz - hdr) (drop (p + hdr) xs))"
    using assms by simp
  ultimately have "take 2048 (drop hdr (take sz (drop p xs) @ ys)) =
      take 2048 (take (sz - hdr) (drop (p + hdr) xs))"
    by simp
  also have "\<dots> = take 2048 (drop (p + hdr) xs)"
    using assms by (simp add: min_def)
  finally show ?thesis .
qed

lemma nth_sector_prefix:
  assumes "k < sz" "p + sz \<le> length xs"
  shows "(take sz (drop p xs) @ ys) ! k = xs ! (p + k)"
  using assms by (simp add: nth_append)

lemma xfread_ok:
  assumes "src_pos s + sz \<le> length (src s)"
  shows "xfread sz s =
    Inr (s\<lparr>buf := take sz (drop (src_pos s) (src s)) @ drop sz (buf s),
           src_pos := src_pos s + sz\<rparr>)"
  using assms by (simp add: xfread_def fread_def)

lemma xfread_short:
  assumes "\<not> src_pos s + sz \<le> length (src s)"
  shows "xfread sz s =
    Inl (Read_error,
      fclose_dst (s\<lparr>buf := drop (src_pos s) (src s) @ drop (length (src s) - src_pos s) (buf s),
        src_pos := src_pos s + (length (src s) - src_pos s)\<rparr>))"
  using assms by (simp add: xfread_def fread_def die_def)

lemma fwrite_ok:
  assumes "length (dst s) + length (pending s) + length item \<le> room s"
  shows "\<exists>D P. fwrite item s = (1, s\<lparr>dst := D, pending := P\<rparr>) \<and>
    D @ P = dst s @ pending s @ item"
proof -
  define n where "n = min (policy s (length (pending s)) (length item)) (length (pending s @ item))"
  have "n \<le> room s - length (dst s)"
    using assms by (simp add: n_def)
  then have "fwrite item s =
      (1, s\<lparr>dst := dst s @ take n (pending s @ item), pending := drop n (pending s @ item)\<rparr>)"
    unfolding fwrite_def Let_def n_def [symmetric] by simp
  moreover have "(dst s @ take n (pending s @ item)) @ drop n (pending s @ item) =
      dst s @ pending s @ item"
    by (simp del: take_append drop_append)
  ultimately show ?thesis
    by blast
qed

lemma xfwrite_ok:
  assumes "length (dst s) + length (pending s) + length (take sz (drop off (buf s))) \<le> room s"
  shows "\<exists>D P. xfwrite off sz s = Inr (s\<lparr>dst := D, pending := P\<rparr>) \<and>
    D @ P = dst s @ pending s @ take sz (drop off (buf s))"
proof -
  from fwrite_ok [OF assms] obtain D P where
    w: "fwrite (take sz (drop off (buf s))) s = (1, s\<lparr>dst := D, pending := P\<rparr>)"
    and eq: "D @ P = dst s @ pending s @ take sz (drop off (buf s))"
    by blast
  from w have "xfwrite off sz s = Inr (s\<lparr>dst := D, pending := P\<rparr>)"
    by (simp add: xfwrite_def)
  with eq show ?thesis
    by blast
qed

lemma main_sector_ok:
  assumes "hdr + 2048 \<le> sz" "MODE_OFFSET < sz" "src_pos s + sz \<le> length (src s)"
    "length (dst s) + length (pending s) + 2048 \<le> room s"
  shows "\<exists>D P. main_sector i hdr sz mode s =
    Inr (s\<lparr>buf := take sz (drop (src_pos s) (src s)) @ drop sz (buf s),
           src_pos := src_pos s + sz,
           stderr := stderr s @
             (if mode \<noteq> 0 \<and> src s ! (src_pos s + MODE_OFFSET) \<noteq> mode
              then [Mode_warning i (src s ! (src_pos s + MODE_OFFSET)) mode] else []),
           dst := D, pending := P\<rparr>) \<and>
    D @ P = dst s @ pending s @ take 2048 (drop (src_pos s + hdr) (src s))"
proof -
  define b where "b = take sz (drop (src_pos s) (src s)) @ drop sz (buf s)"
  define t where "t = s\<lparr>buf := b, src_pos := src_pos s + sz,
    stderr := stderr s @
             (if mode \<noteq> 0 \<and> src s ! (src_pos s + MODE_OFFSET) \<noteq> mode
              then [Mode_warning i (src s ! (src_pos s + MODE_OFFSET)) mode] else [])\<rparr>"
  have rd: "xfread sz s = Inr (s\<lparr>buf := b, src_pos := src_pos s + sz\<rparr>)"
    unfolding b_def using assms(3) by (rule xfread_ok)
  have m: "b ! MODE_OFFSET = src s ! (src_pos s + MODE_OFFSET)"
    unfolding b_def using assms(2,3) by (rule nth_sector_prefix)
  have p: "take 2048 (drop hdr b) = take 2048 (drop (src_pos s + hdr) (src s))"
    unfolding b_def using assms(1,3) by (rule take_drop_payload)
  have step: "main_sector i hdr sz mode s = xfwrite hdr 2048 t"
    unfolding main_sector_def rd t_def by (simp add: warn_def m)
  have "length (dst t) + length (pending t) + length (take 2048 (drop hdr (buf t))) \<le> room t"
    using assms(4) by (simp add: t_def)
  from xfwrite_ok [OF this] obtain D P where
    "xfwrite hdr 2048 t = Inr (t\<lparr>dst := D, pending := P\<rparr>)"
    "D @ P = dst t @ pending t @ take 2048 (drop hdr (buf t))"
    by blast
  then have "main_sector i hdr sz mode s = Inr (t\<lparr>dst := D, pending := P\<rparr>)"
    "D @ P = dst s @ pending s @ take 2048 (drop (src_pos s + hdr) (src s))"
    using p by (simp_all add: step t_def)
  then show ?thesis
    unfolding t_def b_def by blast
qed

lemma upt_head: "i < n \<Longrightarrow> [i..<n] = i # [Suc i..<n]"
  by (rule upt_conv_Cons)

lemma main_loop_ok:
  "hdr + 2048 \<le> sz \<Longrightarrow> MODE_OFFSET < sz \<Longrightarrow> src_pos s = i * sz \<Longrightarrow> i \<le> n \<Longrightarrow>
    n * sz \<le> length (src s) \<Longrightarrow>
    length (dst s) + length (pending s) + (n - i) * 2048 \<le> room s \<Longrightarrow>
    \<exists>s'. main_loop i n hdr sz mode s = Inr s' \<and>
      src s' = src s \<and> src_pos s' = n * sz \<and> room s' = room s \<and>
      dst s' @ pending s' = dst s @ pending s @
        concat (map (\<lambda>j. take 2048 (drop (j * sz + hdr) (src s))) [i..<n]) \<and>
      stderr s' = stderr s @
        map (\<lambda>j. Mode_warning j (src s ! (j * sz + MODE_OFFSET)) mode)
          (filter (\<lambda>j. mode \<noteq> 0 \<and> src s ! (j * sz + MODE_OFFSET) \<noteq> mode) [i..<n])"
proof (induction i n hdr sz mode s rule: main_loop.induct)
  case (1 i n hdr sz mode s)
  show ?case
  proof (cases "i < n")
    case False
    with "1.prems" have "i = n" by simp
    then show ?thesis using "1.prems"(3) by (subst main_loop.simps) simp
  next
    case True
    have "Suc i * sz \<le> n * sz"
      using True by (simp add: Suc_leI mult_le_mono1 del: mult_Suc)
    then have fits: "src_pos s + sz \<le> length (src s)"
      using "1.prems" by simp
    have "(n - i) * 2048 = 2048 + (n - Suc i) * 2048"
      using True by (simp add: Suc_diff_Suc [symmetric])
    then have space: "length (dst s) + length (pending s) + 2048 \<le> room s"
      and space': "length (dst s) + length (pending s) + 2048 + (n - Suc i) * 2048 \<le> room s"
      using "1.prems" by simp_all
    from main_sector_ok [OF "1.prems"(1,2) fits space, of i mode]
    obtain t where step: "main_sector i hdr sz mode s = Inr t"
      and t: "src t = src s" "src_pos t = (i + 1) * sz" "room t = room s"
      "dst t @ pending t = dst s @ pending s @ take 2048 (drop (i * sz + hdr) (src s))"
      "stderr t = stderr s @
             (if mode \<noteq> 0 \<and> src s ! (i * sz + MODE_OFFSET) \<noteq> mode
              then [Mode_warning i (src s ! (i * sz + MODE_OFFSET)) mode] else [])"
      using "1.prems"(3) by auto
    have "length (take 2048 (drop (i * sz + hdr) (src s))) = 2048"
      using fits "1.prems"(1,3) by simp
    moreover have "length (dst t @ pending t) =
        length (dst s @ pending s @ take 2048 (drop (i * sz + hdr) (src s)))"
      by (simp only: t(4))
    ultimately have "length (dst t) + length (pending t) = length (dst s) + length (pending s) + 2048"
      by (simp only: length_append)
    with space' have space_t: "length (dst t) + length (pending t) + (n - (i + 1)) * 2048 \<le> room t"
      by (simp add: t)
    from "1.IH" [OF True step "1.prems"(1,2) t(2)] True "1.prems"(5) space_t
    obtain s' where s': "main_loop (i + 1) n hdr sz mode t = Inr s'"
      "src s' = src t" "src_pos s' = n * sz" "room s' = room t"
      "dst s' @ pending s' = dst t @ pending t @
         concat (map (\<lambda>j. take 2048 (drop (j * sz + hdr) (src t))) [i + 1..<n])"
      "stderr s' = stderr t @
        map (\<lambda>j. Mode_warning j (src t ! (j * sz + MODE_OFFSET)) mode)
          (filter (\<lambda>j. mode \<noteq> 0 \<and> src t ! (j * sz + MODE_OFFSET) \<noteq> mode) [i + 1..<n])"
      by (auto simp: t)
    have "main_loop i n hdr sz mode s = Inr s'"
      using True step s'(1) by (subst main_loop.simps) simp
    moreover have "dst s' @ pending s' = dst s @ pending s @
        concat (map (\<lambda>j. take 2048 (drop (j * sz + hdr) (src s))) [i..<n])"
      unfolding s'(5) using True by (simp add: t upt_head)
    ultimately show ?thesis
      using s'(2,3,4,6) True by (simp add: t upt_head)
  qed
qed

lemma probe_read:
  assumes "16 \<le> length img"
  shows "xfread 16 \<lparr>src = img, src_pos = 0, dst = d, pending = q, room = r, policy = pol,
      buf = b, stderr = w\<rparr> =
    Inr \<lparr>src = img, src_pos = 16, dst = d, pending = q, room = r, policy = pol,
      buf = take 16 img @ drop 16 b, stderr = w\<rparr>"
  using assms by (simp add: xfread_ok)

lemma length_SYNC_HEADER: "length SYNC_HEADER = 12"
  by (simp add: SYNC_HEADER_def)

lemma probe_sync:
  assumes "16 \<le> length img"
  shows "take (length SYNC_HEADER) (take 16 img @ ys) = take 12 img"
  unfolding length_SYNC_HEADER using assms by (simp add: min_def)

lemma probe_mode:
  assumes "16 \<le> length img"
  shows "(take 16 img @ ys) ! MODE_OFFSET = img ! 15"
  using assms by (simp add: MODE_OFFSET_def nth_append)

lemma main_detect_probe:
  assumes "16 \<le> length (src s)" "buf s = take 16 (src s) @ ys"
  shows "main_detect s =
    (if take 12 (src s) \<noteq> SYNC_HEADER then Inr (0, 8, 2336)
     else if src s ! 15 = 2 then Inr (2, 24, 2352)
     else if src s ! 15 = 1 then Inr (1, 16, 2352)
     else die (Unsupported_mode (src s ! 15)) s)"
  unfolding main_detect_def assms(2) probe_sync [OF assms(1)] probe_mode [OF assms(1)]
  by (simp add: Let_def)

lemma main_detected:
  assumes "take 12 img = SYNC_HEADER \<and> img ! 15 = 1 \<and> mode = 1 \<and> hdr = 16 \<and> sz = 2352 \<or>
           take 12 img = SYNC_HEADER \<and> img ! 15 = 2 \<and> mode = 2 \<and> hdr = 24 \<and> sz = 2352 \<or>
           take 12 img \<noteq> SYNC_HEADER \<and> mode = 0 \<and> hdr = 8 \<and> sz = 2336"
    and "16 \<le> length img"
  shows "main img old True space pol buf0 =
    (case main_loop 0 (length img div sz) hdr sz mode
      \<lparr>src = img, src_pos = 0, dst = [], pending = [], room = space, policy = pol,
       buf = take 16 img @ drop 16 buf0,
       stderr = (if length img mod sz \<noteq> 0 then [Size_warning sz (length img mod sz)] else [])\<rparr>
     of Inl e \<Rightarrow> Inl e | Inr s \<Rightarrow> Inr (fclose_dst s))"
proof -
  let ?s2 = "\<lparr>src = img, src_pos = 16, dst = [], pending = [], room = space, policy = pol,
    buf = take 16 img @ drop 16 buf0, stderr = []\<rparr>"
  have d: "main_detect ?s2 = Inr (mode, hdr, sz)"
    using assms by (subst main_detect_probe [where ys = "drop 16 buf0"]) auto
  show ?thesis
    using assms(2)
    by (simp add: main_def fopen_wb_def probe_read d xfseek_end_def ftell_def rewind_def
        warn_def Let_def)
qed
lemma length_concat_blocks:
  assumes "\<And>j. j < n \<Longrightarrow> length (f j) = m"
  shows "length (concat (map f [0..<n])) = n * m"
  using assms by (induction n) simp_all

lemma nth_concat_blocks:
  assumes "\<And>j. j < n \<Longrightarrow> length (f j) = m" and "k < n * m"
  shows "concat (map f [0..<n]) ! k = f (k div m) ! (k mod m)"
  using assms
proof (induction n)
  case 0
  then show ?case by simp
next
  case (Suc n)
  have len: "length (concat (map f [0..<n])) = n * m"
    using Suc.prems(1) by (intro length_concat_blocks) simp
  have m: "0 < m"
    using Suc.prems(2) by (cases m) simp_all
  show ?case
  proof (cases "k < n * m")
    case True
    then show ?thesis
      using Suc.IH Suc.prems(1) len by (simp add: nth_append)
  next
    case False
    then have "n * m \<le> k" by simp
    then obtain r where k: "k = r + n * m"
      by (metis le_add_diff_inverse2)
    with Suc.prems(2) have r: "r < m" by simp
    have "k div m = n" "k mod m = r"
      using r m by (simp_all add: k)
    then show ?thesis
      using False len by (simp add: nth_append k)
  qed
qed

lemma payload_length:
  assumes "hdr + 2048 \<le> sz" "j < n" "n * sz \<le> length img"
  shows "length (take 2048 (drop (j * sz + hdr) img)) = 2048"
proof -
  have "Suc j * sz \<le> n * sz"
    using assms(2) by (intro mult_le_mono1) simp
  then have "j * sz + sz \<le> length img"
    using assms(3) by simp
  then show ?thesis
    using assms(1) by simp
qed

lemma payload_nth:
  assumes "hdr + 2048 \<le> sz" "j < n" "n * sz \<le> length img" "r < 2048"
  shows "take 2048 (drop (j * sz + hdr) img) ! r = img ! (hdr + sz * j + r)"
proof -
  have "Suc j * sz \<le> n * sz"
    using assms(2) by (intro mult_le_mono1) simp
  then have "j * sz + sz \<le> length img"
    using assms(3) by simp
  then show ?thesis
    using assms(1,4) by (simp add: ac_simps)
qed

lemma payloads_nth:
  assumes "hdr + 2048 \<le> sz" "n * sz \<le> length img" "k < n * 2048"
  shows "concat (map (\<lambda>j. take 2048 (drop (j * sz + hdr) img)) [0..<n]) ! k =
    img ! (hdr + sz * (k div 2048) + k mod 2048)"
proof -
  have j: "k div 2048 < n"
    using assms(3) by (simp add: less_mult_imp_div_less)
  have "concat (map (\<lambda>j. take 2048 (drop (j * sz + hdr) img)) [0..<n]) ! k =
      take 2048 (drop ((k div 2048) * sz + hdr) img) ! (k mod 2048)"
    using assms by (intro nth_concat_blocks payload_length)
  also have "\<dots> = img ! (hdr + sz * (k div 2048) + k mod 2048)"
    using assms(1) j assms(2) by (rule payload_nth) simp
  finally show ?thesis .
qed

lemma payloads_length:
  assumes "hdr + 2048 \<le> sz" "n * sz \<le> length img"
  shows "length (concat (map (\<lambda>j. take 2048 (drop (j * sz + hdr) img)) [0..<n])) = n * 2048"
  using assms by (intro length_concat_blocks payload_length)


lemma main_ok:
  assumes "take 12 img = SYNC_HEADER \<and> img ! 15 = 1 \<and> mode = 1 \<and> hdr = 16 \<and> sz = 2352 \<or>
           take 12 img = SYNC_HEADER \<and> img ! 15 = 2 \<and> mode = 2 \<and> hdr = 24 \<and> sz = 2352 \<or>
           take 12 img \<noteq> SYNC_HEADER \<and> mode = 0 \<and> hdr = 8 \<and> sz = 2336"
    and "16 \<le> length img"
    and "(length img div sz) * 2048 \<le> space"
  shows "\<exists>s. main img old True space pol buf0 = Inr s \<and>
      src s = img \<and> src_pos s = (length img div sz) * sz \<and> room s = space \<and>
      pending s = [] \<and>
      dst s = concat (map (\<lambda>j. take 2048 (drop (j * sz + hdr) img)) [0..<length img div sz]) \<and>
      stderr s =
        (if length img mod sz \<noteq> 0 then [Size_warning sz (length img mod sz)] else []) @
        map (\<lambda>j. Mode_warning j (img ! (j * sz + MODE_OFFSET)) mode)
          (filter (\<lambda>j. mode \<noteq> 0 \<and> img ! (j * sz + MODE_OFFSET) \<noteq> mode)
             [0..<length img div sz])"
proof -
  define n where "n = length img div sz"
  let ?s = "\<lparr>src = img, src_pos = 0, dst = [], pending = [], room = space, policy = pol,
       buf = take 16 img @ drop 16 buf0,
       stderr = (if length img mod sz \<noteq> 0 then [Size_warning sz (length img mod sz)] else [])\<rparr>"
  have geo: "hdr + 2048 \<le> sz" "MODE_OFFSET < sz"
    using assms(1) by (auto simp: MODE_OFFSET_def)
  have whole: "n * sz \<le> length img"
    by (simp add: n_def)
  have m: "main img old True space pol buf0 =
      (case main_loop 0 n hdr sz mode ?s of Inl e \<Rightarrow> Inl e | Inr s \<Rightarrow> Inr (fclose_dst s))"
    unfolding n_def using assms(1,2) by (rule main_detected)
  have "src_pos ?s = 0 * sz" "0 \<le> n" "n * sz \<le> length (src ?s)"
    "length (dst ?s) + length (pending ?s) + (n - 0) * 2048 \<le> room ?s"
    using assms(3) whole by (simp_all add: n_def)
  from main_loop_ok [OF geo this, of mode]
  obtain s' where s': "main_loop 0 n hdr sz mode ?s = Inr s'"
    "src s' = img" "src_pos s' = n * sz" "room s' = space"
    "dst s' @ pending s' = concat (map (\<lambda>j. take 2048 (drop (j * sz + hdr) img)) [0..<n])"
    "stderr s' =
        (if length img mod sz \<noteq> 0 then [Size_warning sz (length img mod sz)] else []) @
        map (\<lambda>j. Mode_warning j (img ! (j * sz + MODE_OFFSET)) mode)
          (filter (\<lambda>j. mode \<noteq> 0 \<and> img ! (j * sz + MODE_OFFSET) \<noteq> mode) [0..<n])"
    by auto
  have "length (dst s' @ pending s') = n * 2048"
    unfolding s'(5) using geo(1) whole by (rule payloads_length)
  then have "length (pending s') \<le> room s' - length (dst s')"
    using assms(3) by (simp add: s'(4) n_def)
  then have "dst (fclose_dst s') = dst s' @ pending s'"
    by (simp add: fclose_dst_def)
  then have "main img old True space pol buf0 = Inr (fclose_dst s')"
    "dst (fclose_dst s') = concat (map (\<lambda>j. take 2048 (drop (j * sz + hdr) img)) [0..<n])"
    "pending (fclose_dst s') = []" "src (fclose_dst s') = img"
    "src_pos (fclose_dst s') = n * sz" "room (fclose_dst s') = space"
    "stderr (fclose_dst s') = stderr s'"
    using s'(1-5) by (simp_all add: m fclose_dst_def)
  then show ?thesis
    unfolding n_def [symmetric] using s'(6) by auto
qed

lemma filter_mode_warnings:
  "filter (\<lambda>w. \<exists>i a b. w = Mode_warning i a b) (map (\<lambda>i. Mode_warning i (f i) m) xs) =
    map (\<lambda>i. Mode_warning i (f i) m) xs"
  by (induction xs) simp_all


section \<open>Failures, and what the outcome does not depend on\<close>

lemma main_sector_read:
  assumes "MODE_OFFSET < sz" "src_pos s + sz \<le> length (src s)"
  shows "main_sector i hdr sz mode s =
    xfwrite hdr 2048
      (s\<lparr>buf := take sz (drop (src_pos s) (src s)) @ drop sz (buf s),
         src_pos := src_pos s + sz,
         stderr := stderr s @
           (if mode \<noteq> 0 \<and> src s ! (src_pos s + MODE_OFFSET) \<noteq> mode
            then [Mode_warning i (src s ! (src_pos s + MODE_OFFSET)) mode] else [])\<rparr>)"
proof -
  define b where "b = take sz (drop (src_pos s) (src s)) @ drop sz (buf s)"
  have rd: "xfread sz s = Inr (s\<lparr>buf := b, src_pos := src_pos s + sz\<rparr>)"
    unfolding b_def using assms(2) by (rule xfread_ok)
  have m: "b ! MODE_OFFSET = src s ! (src_pos s + MODE_OFFSET)"
    unfolding b_def using assms by (rule nth_sector_prefix)
  show ?thesis
    unfolding main_sector_def rd b_def [symmetric] by (simp add: warn_def m)
qed

lemma fwrite_buf:
  "fwrite item (s\<lparr>buf := b\<rparr>) = map_prod id (\<lambda>t. t\<lparr>buf := b\<rparr>) (fwrite item s)"
proof -
  define q where "q = pending s @ item"
  define n where "n = min (policy s (length (pending s)) (length item)) (length q)"
  define fit where "fit = room s - length (dst s)"
  have a: "fwrite item s =
      (if n \<le> fit then (1, s\<lparr>dst := dst s @ take n q, pending := drop n q\<rparr>)
       else (0, s\<lparr>dst := dst s @ take fit q, pending := drop fit q\<rparr>))"
    unfolding fwrite_def Let_def n_def fit_def q_def ..
  have b: "fwrite item (s\<lparr>buf := b\<rparr>) =
      (if n \<le> fit then (1, s\<lparr>buf := b, dst := dst s @ take n q, pending := drop n q\<rparr>)
       else (0, s\<lparr>buf := b, dst := dst s @ take fit q, pending := drop fit q\<rparr>))"
    unfolding fwrite_def Let_def n_def fit_def q_def by simp
  show ?thesis
    unfolding a b by simp
qed

lemma xfwrite_buf:
  assumes "take sz (drop off b) = take sz (drop off (buf s))"
  shows "xfwrite off sz (s\<lparr>buf := b\<rparr>) =
    map_sum (map_prod id (\<lambda>t. t\<lparr>buf := b\<rparr>)) (\<lambda>t. t\<lparr>buf := b\<rparr>) (xfwrite off sz s)"
proof -
  obtain k t where w: "fwrite (take sz (drop off (buf s))) s = (k, t)"
    by (cases "fwrite (take sz (drop off (buf s))) s")
  then have w': "fwrite (take sz (drop off b)) (s\<lparr>buf := b\<rparr>) = (k, t\<lparr>buf := b\<rparr>)"
    unfolding assms fwrite_buf by simp
  show ?thesis
    unfolding xfwrite_def by (simp add: w w' die_def fclose_dst_def)
qed

lemma main_sector_buf:
  assumes "hdr + 2048 \<le> sz" "MODE_OFFSET < sz"
  shows "\<exists>b'. main_sector i hdr sz mode (s\<lparr>buf := b\<rparr>) =
    map_sum (map_prod id (\<lambda>t. t\<lparr>buf := b'\<rparr>)) (\<lambda>t. t\<lparr>buf := b'\<rparr>)
      (main_sector i hdr sz mode s)"
proof (cases "src_pos s + sz \<le> length (src s)")
  case False
  then have "main_sector i hdr sz mode (s\<lparr>buf := b\<rparr>) =
    map_sum (map_prod id
        (\<lambda>t. t\<lparr>buf := drop (src_pos s) (src s) @ drop (length (src s) - src_pos s) b\<rparr>))
      (\<lambda>t. t\<lparr>buf := drop (src_pos s) (src s) @ drop (length (src s) - src_pos s) b\<rparr>)
      (main_sector i hdr sz mode s)"
    by (simp add: main_sector_def xfread_short fclose_dst_def)
  then show ?thesis
    by blast
next
  case True
  define W where "W = (if mode \<noteq> 0 \<and> src s ! (src_pos s + MODE_OFFSET) \<noteq> mode
            then [Mode_warning i (src s ! (src_pos s + MODE_OFFSET)) mode] else [])"
  define t where "t = s\<lparr>buf := take sz (drop (src_pos s) (src s)) @ drop sz (buf s),
         src_pos := src_pos s + sz, stderr := stderr s @ W\<rparr>"
  define b' where "b' = take sz (drop (src_pos s) (src s)) @ drop sz b"
  have a: "main_sector i hdr sz mode s = xfwrite hdr 2048 t"
    unfolding t_def W_def using assms(2) True by (rule main_sector_read)
  have "main_sector i hdr sz mode (s\<lparr>buf := b\<rparr>) =
      xfwrite hdr 2048 (s\<lparr>buf := b, buf := b', src_pos := src_pos s + sz, stderr := stderr s @ W\<rparr>)"
    using main_sector_read [of sz "s\<lparr>buf := b\<rparr>" i hdr mode] assms(2) True
    by (simp add: b'_def W_def)
  moreover have "s\<lparr>buf := b, buf := b', src_pos := src_pos s + sz, stderr := stderr s @ W\<rparr> =
      t\<lparr>buf := b'\<rparr>"
    by (cases s) (simp add: t_def)
  ultimately have b: "main_sector i hdr sz mode (s\<lparr>buf := b\<rparr>) = xfwrite hdr 2048 (t\<lparr>buf := b'\<rparr>)"
    by simp
  have "take 2048 (drop hdr b') = take 2048 (drop (src_pos s + hdr) (src s))"
    unfolding b'_def using assms(1) True by (rule take_drop_payload)
  moreover have "buf t = take sz (drop (src_pos s) (src s)) @ drop sz (buf s)"
    by (simp add: t_def)
  then have "take 2048 (drop hdr (buf t)) = take 2048 (drop (src_pos s + hdr) (src s))"
    using take_drop_payload [OF assms(1) True] by (simp only:)
  ultimately have "take 2048 (drop hdr b') = take 2048 (drop hdr (buf t))"
    by simp
  then have "xfwrite hdr 2048 (t\<lparr>buf := b'\<rparr>) =
      map_sum (map_prod id (\<lambda>t. t\<lparr>buf := b'\<rparr>)) (\<lambda>t. t\<lparr>buf := b'\<rparr>) (xfwrite hdr 2048 t)"
    by (rule xfwrite_buf)
  then show ?thesis
    unfolding a b by blast
qed

lemma main_loop_buf:
  "hdr + 2048 \<le> sz \<Longrightarrow> MODE_OFFSET < sz \<Longrightarrow>
    \<exists>b'. main_loop i n hdr sz mode (s\<lparr>buf := b\<rparr>) =
      map_sum (map_prod id (\<lambda>t. t\<lparr>buf := b'\<rparr>)) (\<lambda>t. t\<lparr>buf := b'\<rparr>)
        (main_loop i n hdr sz mode s)"
proof (induction i n hdr sz mode s arbitrary: b rule: main_loop.induct)
  case (1 i n hdr sz mode s)
  note geo = "1.prems"
  show ?case
  proof (cases "i < n")
    case False
    then have "main_loop i n hdr sz mode (s\<lparr>buf := b\<rparr>) =
      map_sum (map_prod id (\<lambda>t. t\<lparr>buf := b\<rparr>)) (\<lambda>t. t\<lparr>buf := b\<rparr>)
        (main_loop i n hdr sz mode s)"
      by (simp add: main_loop.simps [of i n])
    then show ?thesis
      by blast
  next
    case True
    from main_sector_buf [OF geo, where i = i and mode = mode and s = s and b = b] obtain b1 where
      step: "main_sector i hdr sz mode (s\<lparr>buf := b\<rparr>) =
        map_sum (map_prod id (\<lambda>t. t\<lparr>buf := b1\<rparr>)) (\<lambda>t. t\<lparr>buf := b1\<rparr>)
          (main_sector i hdr sz mode s)"
      by blast
    show ?thesis
    proof (cases "main_sector i hdr sz mode s")
      case (Inl e)
      with step True have "main_loop i n hdr sz mode (s\<lparr>buf := b\<rparr>) =
        map_sum (map_prod id (\<lambda>t. t\<lparr>buf := b1\<rparr>)) (\<lambda>t. t\<lparr>buf := b1\<rparr>)
          (main_loop i n hdr sz mode s)"
        by (simp add: main_loop.simps [of i n])
      then show ?thesis
        by blast
    next
      case (Inr s1)
      from "1.IH" [OF True Inr geo, of b1] obtain b' where
        "main_loop (i + 1) n hdr sz mode (s1\<lparr>buf := b1\<rparr>) =
          map_sum (map_prod id (\<lambda>t. t\<lparr>buf := b'\<rparr>)) (\<lambda>t. t\<lparr>buf := b'\<rparr>)
            (main_loop (i + 1) n hdr sz mode s1)"
        by blast
      with Inr step True have "main_loop i n hdr sz mode (s\<lparr>buf := b\<rparr>) =
        map_sum (map_prod id (\<lambda>t. t\<lparr>buf := b'\<rparr>)) (\<lambda>t. t\<lparr>buf := b'\<rparr>)
          (main_loop i n hdr sz mode s)"
        by (simp add: main_loop.simps [of i n])
      then show ?thesis
        by blast
    qed
  qed
qed

lemma main_unwritable:
  "main img old False space pol buf0 =
    Inl (Dest_unwritable,
      \<lparr>src = img, src_pos = 0, dst = old, pending = [], room = space, policy = pol,
       buf = buf0, stderr = []\<rparr>)"
  by (simp add: main_def fopen_wb_def die_def fclose_dst_def)

lemma main_short:
  assumes "length img < 16"
  shows "main img old True space pol buf0 =
    Inl (Read_error,
      \<lparr>src = img, src_pos = length img, dst = [], pending = [], room = space, policy = pol,
       buf = img @ drop (length img) buf0, stderr = []\<rparr>)"
  using assms by (simp add: main_def fopen_wb_def xfread_short fclose_dst_def)

lemma main_unsupported:
  assumes "16 \<le> length img" and "take 12 img = SYNC_HEADER"
    and "img ! 15 \<noteq> 1" and "img ! 15 \<noteq> 2"
  shows "main img old True space pol buf0 =
    Inl (Unsupported_mode (img ! 15),
         \<lparr>src = img, src_pos = 16, dst = [], pending = [], room = space, policy = pol,
          buf = take 16 img @ drop 16 buf0, stderr = []\<rparr>)"
proof -
  let ?s2 = "\<lparr>src = img, src_pos = 16, dst = [], pending = [], room = space, policy = pol,
    buf = take 16 img @ drop 16 buf0, stderr = []\<rparr>"
  have "main_detect ?s2 = Inl (Unsupported_mode (img ! 15), ?s2)"
    using assms
    by (subst main_detect_probe [where ys = "drop 16 buf0"]) (simp_all add: die_def fclose_dst_def)
  then show ?thesis
    using assms(1) by (simp add: main_def fopen_wb_def probe_read)
qed

lemma layout_cases:
  fixes img :: "byte list"
  shows "take 12 img = SYNC_HEADER \<and> img ! 15 \<noteq> 1 \<and> img ! 15 \<noteq> 2 \<or>
    (\<exists>(mode :: byte) (hdr :: nat) (sz :: nat).
       take 12 img = SYNC_HEADER \<and> img ! 15 = 1 \<and> mode = 1 \<and> hdr = 16 \<and> sz = 2352 \<or>
       take 12 img = SYNC_HEADER \<and> img ! 15 = 2 \<and> mode = 2 \<and> hdr = 24 \<and> sz = 2352 \<or>
       take 12 img \<noteq> SYNC_HEADER \<and> mode = 0 \<and> hdr = (8 :: nat) \<and> sz = (2336 :: nat))"
  by blast

lemma layout_geometry:
  assumes "take 12 img = SYNC_HEADER \<and> img ! 15 = 1 \<and> mode = 1 \<and> hdr = 16 \<and> sz = 2352 \<or>
       take 12 img = SYNC_HEADER \<and> img ! 15 = 2 \<and> mode = 2 \<and> hdr = 24 \<and> sz = 2352 \<or>
       take 12 img \<noteq> SYNC_HEADER \<and> mode = 0 \<and> hdr = (8 :: nat) \<and> sz = (2336 :: nat)"
  shows "hdr + 2048 \<le> sz" "MODE_OFFSET < sz"
  using assms by (auto simp: MODE_OFFSET_def)


lemma fwrite_stderr: "stderr (snd (fwrite item s)) = stderr s"
  by (simp add: fwrite_def Let_def)

lemma xfwrite_stderr: "stderr (final (xfwrite off sz s)) = stderr s"
proof -
  obtain k t where w: "fwrite (take sz (drop off (buf s))) s = (k, t)"
    by (cases "fwrite (take sz (drop off (buf s))) s")
  with fwrite_stderr [of "take sz (drop off (buf s))" s] have "stderr t = stderr s"
    by simp
  then show ?thesis
    by (simp add: xfwrite_def w die_def final_def fclose_dst_def)
qed

lemma main_sector_stderr:
  assumes "MODE_OFFSET < sz"
  shows "stderr (final (main_sector i hdr sz mode s)) =
    stderr s @
      (if src_pos s + sz \<le> length (src s) \<and> mode \<noteq> 0 \<and>
          src s ! (src_pos s + MODE_OFFSET) \<noteq> mode
       then [Mode_warning i (src s ! (src_pos s + MODE_OFFSET)) mode] else [])"
proof (cases "src_pos s + sz \<le> length (src s)")
  case False
  then show ?thesis
    by (simp add: main_sector_def xfread_short final_def fclose_dst_def)
next
  case True
  show ?thesis
    unfolding main_sector_read [OF assms True] xfwrite_stderr using True by simp
qed

lemma main_loop_warnings:
  "MODE_OFFSET < sz \<Longrightarrow>
    m \<in> set (stderr (final (main_loop i n hdr sz mode s))) \<Longrightarrow>
    m \<in> set (stderr s) \<or>
    mode \<noteq> 0 \<and> (\<exists>j a. m = Mode_warning j a mode \<and> i \<le> j \<and> a \<noteq> mode)"
proof (induction i n hdr sz mode s rule: main_loop.induct)
  case (1 i n hdr sz mode s)
  note geo = "1.prems"(1)
  have step: "m \<in> set (stderr (final (main_sector i hdr sz mode s))) \<Longrightarrow>
      m \<in> set (stderr s) \<or> mode \<noteq> 0 \<and> (\<exists>a. m = Mode_warning i a mode \<and> a \<noteq> mode)"
    unfolding main_sector_stderr [OF geo] by (auto split: if_splits)
  show ?case
  proof (cases "i < n")
    case False
    with "1.prems"(2) show ?thesis
      by (simp add: main_loop.simps [of i n] final_def)
  next
    case True
    show ?thesis
    proof (cases "main_sector i hdr sz mode s")
      case (Inl e)
      with True "1.prems"(2) have "m \<in> set (stderr (final (main_sector i hdr sz mode s)))"
        by (simp add: main_loop.simps [of i n] final_def split_beta)
      with step show ?thesis
        by blast
    next
      case (Inr s1)
      with True "1.prems"(2) have "m \<in> set (stderr (final (main_loop (i + 1) n hdr sz mode s1)))"
        by (simp add: main_loop.simps [of i n])
      with True Inr geo have "m \<in> set (stderr s1) \<or>
          mode \<noteq> 0 \<and> (\<exists>j a. m = Mode_warning j a mode \<and> i + 1 \<le> j \<and> a \<noteq> mode)"
        by (rule "1.IH")
      moreover have "stderr s1 = stderr (final (main_sector i hdr sz mode s))"
        using Inr by (simp add: final_def)
      ultimately show ?thesis
        using step by (metis add_leD1 order_refl)
    qed
  qed
qed

lemma main_first_sector:
  assumes "take 12 img = SYNC_HEADER \<and> img ! 15 = 1 \<and> mode = 1 \<and> hdr = 16 \<and> sz = 2352 \<or>
       take 12 img = SYNC_HEADER \<and> img ! 15 = 2 \<and> mode = 2 \<and> hdr = 24 \<and> sz = 2352 \<or>
       take 12 img \<noteq> SYNC_HEADER \<and> mode = 0 \<and> hdr = (8 :: nat) \<and> sz = (2336 :: nat)"
    and "src s = img" and "src_pos s = 0"
    and "m \<in> set (stderr (final (main_loop 0 n hdr sz mode s)))"
  shows "m \<in> set (stderr s) \<or>
    mode \<noteq> 0 \<and> (\<exists>j a. m = Mode_warning j a mode \<and> 1 \<le> j \<and> a \<noteq> mode)"
proof -
  note geo = layout_geometry [OF assms(1)]
  have quiet: "\<not> (mode \<noteq> 0 \<and> src s ! (src_pos s + MODE_OFFSET) \<noteq> mode)"
    using assms(1-3) by (auto simp: MODE_OFFSET_def)
  have step: "stderr (final (main_sector 0 hdr sz mode s)) = stderr s"
    unfolding main_sector_stderr [OF geo(2)] using quiet by simp
  show ?thesis
  proof (cases "0 < n")
    case False
    with assms(4) show ?thesis
      by (simp add: main_loop.simps [of 0 n] final_def)
  next
    case True
    show ?thesis
    proof (cases "main_sector 0 hdr sz mode s")
      case (Inl e)
      with True assms(4) have "m \<in> set (stderr (final (main_sector 0 hdr sz mode s)))"
        by (simp add: main_loop.simps [of 0 n] final_def split_beta)
      with step show ?thesis
        by simp
    next
      case (Inr s1)
      with True assms(4) have "m \<in> set (stderr (final (main_loop (0 + 1) n hdr sz mode s1)))"
        by (simp add: main_loop.simps [of 0 n])
      with geo(2) have "m \<in> set (stderr s1) \<or>
          mode \<noteq> 0 \<and> (\<exists>j a. m = Mode_warning j a mode \<and> 0 + 1 \<le> j \<and> a \<noteq> mode)"
        by (rule main_loop_warnings)
      moreover have "stderr s1 = stderr s"
        using Inr step by (simp add: final_def)
      ultimately show ?thesis
        by simp
    qed
  qed
qed

lemma fwrite_accepts:
  assumes "fwrite item s = (1, s')"
  shows "dst s' @ pending s' = dst s @ pending s @ item" and "buf s' = buf s"
proof -
  define q where "q = pending s @ item"
  define n where "n = min (policy s (length (pending s)) (length item)) (length q)"
  define fit where "fit = room s - length (dst s)"
  have "fwrite item s =
      (if n \<le> fit then (1, s\<lparr>dst := dst s @ take n q, pending := drop n q\<rparr>)
       else (0, s\<lparr>dst := dst s @ take fit q, pending := drop fit q\<rparr>))"
    unfolding fwrite_def Let_def n_def fit_def q_def ..
  with assms have s': "s' = s\<lparr>dst := dst s @ take n q, pending := drop n q\<rparr>"
    by (simp split: if_splits)
  have "(dst s @ take n q) @ drop n q = dst s @ q"
    by simp
  then show "dst s' @ pending s' = dst s @ pending s @ item"
    by (simp add: s' q_def del: append_assoc take_append drop_append)
  show "buf s' = buf s"
    by (simp add: s')
qed

lemma xfwrite_accepts:
  assumes "xfwrite off sz s = Inr s'"
  shows "dst s' @ pending s' = dst s @ pending s @ take sz (drop off (buf s))"
    and "buf s' = buf s"
proof -
  obtain k t where w: "fwrite (take sz (drop off (buf s))) s = (k, t)"
    by (cases "fwrite (take sz (drop off (buf s))) s")
  with assms have "k = 1" "t = s'"
    by (simp_all add: xfwrite_def die_def split: if_splits)
  with w have "fwrite (take sz (drop off (buf s))) s = (1, s')"
    by simp
  then show "dst s' @ pending s' = dst s @ pending s @ take sz (drop off (buf s))"
    and "buf s' = buf s"
    by (rule fwrite_accepts)+
qed

lemma main_sector_accepts:
  assumes "hdr + 2048 \<le> sz" "MODE_OFFSET < sz" "src_pos s + sz \<le> length (src s)"
    and "main_sector i hdr sz mode s = Inr s'"
  shows "dst s' @ pending s' = dst s @ pending s @ take 2048 (drop (src_pos s + hdr) (src s))"
    and "take 2048 (drop hdr (buf s')) = take 2048 (drop (src_pos s + hdr) (src s))"
proof -
  define t where "t = s\<lparr>buf := take sz (drop (src_pos s) (src s)) @ drop sz (buf s),
         src_pos := src_pos s + sz,
         stderr := stderr s @
           (if mode \<noteq> 0 \<and> src s ! (src_pos s + MODE_OFFSET) \<noteq> mode
            then [Mode_warning i (src s ! (src_pos s + MODE_OFFSET)) mode] else [])\<rparr>"
  have "main_sector i hdr sz mode s = xfwrite hdr 2048 t"
    unfolding t_def using assms(2,3) by (rule main_sector_read)
  with assms(4) have w: "xfwrite hdr 2048 t = Inr s'"
    by simp
  have "buf t = take sz (drop (src_pos s) (src s)) @ drop sz (buf s)"
    by (simp add: t_def)
  then have p: "take 2048 (drop hdr (buf t)) = take 2048 (drop (src_pos s + hdr) (src s))"
    using take_drop_payload [OF assms(1,3)] by (simp only:)
  note a = xfwrite_accepts [OF w]
  from a(1) show
    "dst s' @ pending s' = dst s @ pending s @ take 2048 (drop (src_pos s + hdr) (src s))"
    unfolding p by (simp add: t_def)
  show "take 2048 (drop hdr (buf s')) = take 2048 (drop (src_pos s + hdr) (src s))"
    unfolding a(2) by (rule p)
qed

lemma close_buf:
  assumes "r' = map_sum (map_prod id (\<lambda>t. t\<lparr>buf := b'\<rparr>)) (\<lambda>t. t\<lparr>buf := b'\<rparr>) r"
  shows "failure (case r' of Inl e \<Rightarrow> Inl e | Inr s \<Rightarrow> Inr (fclose_dst s)) =
      failure (case r of Inl e \<Rightarrow> Inl e | Inr s \<Rightarrow> Inr (fclose_dst s)) \<and>
    dst (final (case r' of Inl e \<Rightarrow> Inl e | Inr s \<Rightarrow> Inr (fclose_dst s))) =
      dst (final (case r of Inl e \<Rightarrow> Inl e | Inr s \<Rightarrow> Inr (fclose_dst s))) \<and>
    stderr (final (case r' of Inl e \<Rightarrow> Inl e | Inr s \<Rightarrow> Inr (fclose_dst s))) =
      stderr (final (case r of Inl e \<Rightarrow> Inl e | Inr s \<Rightarrow> Inr (fclose_dst s)))"
  unfolding assms by (cases r) (auto simp: failure_def final_def fclose_dst_def)

lemma close_stderr:
  "stderr (final (case r of Inl e \<Rightarrow> Inl e | Inr s \<Rightarrow> Inr (fclose_dst s))) = stderr (final r)"
  by (cases r) (auto simp: final_def fclose_dst_def)

section \<open>A destination without room\<close>

text \<open>
  \<^verbatim>\<open>fwrite\<close> on a buffered stream succeeds without a byte reaching the file, and
  \<^verbatim>\<open>main\<close> does not check \<^verbatim>\<open>fclose(dst)\<close>: with a buffer of 4096 bytes, a source of two
  sectors and room for one payload, the run exits successfully and leaves a
  destination of 2048 bytes. This is why the statements about the contents of the
  destination below ask for room.
\<close>

lemma xfwrite_buffered:
  "xfwrite 8 2048
     \<lparr>src = [], src_pos = 0, dst = [], pending = [], room = 0,
      policy = (\<lambda>p sz. if sz \<le> 4096 - p then 0 else 4096), buf = replicate 2336 5,
      stderr = []\<rparr> =
   Inr \<lparr>src = [], src_pos = 0, dst = [], pending = replicate 2048 5, room = 0,
      policy = (\<lambda>p sz. if sz \<le> 4096 - p then 0 else 4096), buf = replicate 2336 5,
      stderr = []\<rparr>"
  by (simp add: xfwrite_def fwrite_def)

lemma main_exits_with_truncated_destination:
  "main (3 # replicate 4671 0) [] True 2048 (\<lambda>p sz. if sz \<le> 4096 - p then 0 else 4096) [] =
   Inr \<lparr>src = 3 # replicate 4671 0, src_pos = 4672, dst = replicate 2048 0, pending = [],
      room = 2048, policy = (\<lambda>p sz. if sz \<le> 4096 - p then 0 else 4096),
      buf = replicate 2336 0, stderr = []\<rparr>"
proof -
  let ?img = "3 # replicate 4671 (0 :: byte)"
  let ?pol = "\<lambda>p sz :: nat. if sz \<le> 4096 - p then 0 else 4096 :: nat"
  have l: "take 12 ?img = SYNC_HEADER \<and> ?img ! 15 = 1 \<and> (0 :: byte) = 1 \<and> (8 :: nat) = 16 \<and>
        (2336 :: nat) = 2352 \<or>
      take 12 ?img = SYNC_HEADER \<and> ?img ! 15 = 2 \<and> (0 :: byte) = 2 \<and> (8 :: nat) = 24 \<and>
        (2336 :: nat) = 2352 \<or>
      take 12 ?img \<noteq> SYNC_HEADER \<and> (0 :: byte) = 0 \<and> (8 :: nat) = 8 \<and> (2336 :: nat) = 2336"
    by (simp add: SYNC_HEADER_def)
  have len: "16 \<le> length ?img"
    by simp
  show ?thesis
    unfolding main_detected [OF l len]
    by (simp add: main_loop.simps
        main_sector_def xfread_def fread_def xfwrite_def fwrite_def fclose_dst_def MODE_OFFSET_def)
qed

text \<open>
  With the same buffer and a source of three sectors, the third \<^verbatim>\<open>fwrite\<close> empties
  the buffer into the file and fails: the run dies in sector 2, although there was no
  room for the payload of sector 1 already.
\<close>

lemma main_dies_when_the_buffer_is_emptied:
  "main (3 # replicate 7007 0) [] True 2048 (\<lambda>p sz. if sz \<le> 4096 - p then 0 else 4096) [] =
   Inl (Write_error,
     \<lparr>src = 3 # replicate 7007 0, src_pos = 7008, dst = replicate 2048 0, pending = [],
      room = 2048, policy = (\<lambda>p sz. if sz \<le> 4096 - p then 0 else 4096),
      buf = replicate 2336 0, stderr = []\<rparr>)"
proof -
  let ?img = "3 # replicate 7007 (0 :: byte)"
  have l: "take 12 ?img = SYNC_HEADER \<and> ?img ! 15 = 1 \<and> (0 :: byte) = 1 \<and> (8 :: nat) = 16 \<and>
        (2336 :: nat) = 2352 \<or>
      take 12 ?img = SYNC_HEADER \<and> ?img ! 15 = 2 \<and> (0 :: byte) = 2 \<and> (8 :: nat) = 24 \<and>
        (2336 :: nat) = 2352 \<or>
      take 12 ?img \<noteq> SYNC_HEADER \<and> (0 :: byte) = 0 \<and> (8 :: nat) = 8 \<and> (2336 :: nat) = 2336"
    by (simp add: SYNC_HEADER_def)
  have len: "16 \<le> length ?img"
    by simp
  show ?thesis
    unfolding main_detected [OF l len]
    by (simp add: main_loop.simps
        main_sector_def xfread_def fread_def xfwrite_def fwrite_def fclose_dst_def die_def
        MODE_OFFSET_def)
qed

section \<open>Properties of the conversion\<close>

text \<open>
  C1. An image of \<open>N\<close> whole sectors (\<open>N\<close> at least 1), whose first sector selects
  the layout, is converted without failure when the destination has room for
  \<open>N * 2048\<close> bytes. The destination then holds exactly \<open>N * 2048\<close> bytes, byte \<open>k\<close>
  of it is source byte \<open>hdr + sz * (k div 2048) + k mod 2048\<close>, and it is the
  concatenation of the payloads of sectors \<open>0, 1, \<dots>, N - 1\<close> in this order.
  \<open>(hdr, sz)\<close> is \<open>(16, 2352)\<close> for Mode 1 / 2352, \<open>(24, 2352)\<close> for Mode 2 / 2352
  and \<open>(8, 2336)\<close> for Mode 2 / 2336.
\<close>

theorem conversion_whole_sectors:
  assumes "take 12 img = SYNC_HEADER \<and> img ! 15 = 1 \<and> hdr = 16 \<and> sz = 2352 \<or>
           take 12 img = SYNC_HEADER \<and> img ! 15 = 2 \<and> hdr = 24 \<and> sz = 2352 \<or>
           take 12 img \<noteq> SYNC_HEADER \<and> hdr = 8 \<and> sz = 2336"
    and "length img = N * sz" and "0 < N" and "N * 2048 \<le> space"
  shows "\<exists>s. main img old True space pol buf0 = Inr s \<and>
      length (dst s) = N * 2048 \<and>
      (\<forall>k < N * 2048. dst s ! k = img ! (hdr + sz * (k div 2048) + k mod 2048)) \<and>
      dst s = concat (map (\<lambda>i. take 2048 (drop (i * sz + hdr) img)) [0..<N])"
proof -
  from assms(1) obtain mode :: byte where
    layout: "take 12 img = SYNC_HEADER \<and> img ! 15 = 1 \<and> mode = 1 \<and> hdr = 16 \<and> sz = 2352 \<or>
           take 12 img = SYNC_HEADER \<and> img ! 15 = 2 \<and> mode = 2 \<and> hdr = 24 \<and> sz = 2352 \<or>
           take 12 img \<noteq> SYNC_HEADER \<and> mode = 0 \<and> hdr = 8 \<and> sz = 2336"
    by blast
  have geo: "hdr + 2048 \<le> sz" "0 < sz"
    using assms(1) by auto
  have n: "length img div sz = N"
    using assms(2) geo(2) by simp
  have "16 \<le> sz" using assms(1) by auto
  also have "\<dots> \<le> N * sz" using assms(3) by simp
  finally have len: "16 \<le> length img" using assms(2) by simp
  from main_ok [OF layout len, where space = space and old = old and pol = pol and ?buf0.0 = buf0]
    assms(4)
  obtain s where s: "main img old True space pol buf0 = Inr s"
    "dst s = concat (map (\<lambda>j. take 2048 (drop (j * sz + hdr) img)) [0..<N])"
    unfolding n by blast
  have whole: "N * sz \<le> length img"
    using assms(2) by simp
  have "length (dst s) = N * 2048"
    unfolding s(2) using geo(1) whole by (rule payloads_length)
  moreover have "\<forall>k < N * 2048. dst s ! k = img ! (hdr + sz * (k div 2048) + k mod 2048)"
    unfolding s(2) using geo(1) whole by (auto intro: payloads_nth)
  ultimately show ?thesis
    using s by blast
qed

theorem conversion_whole_sectors_witness:
  "(\<exists>s. main (SYNC_HEADER @ [0, 2, 0, 1] @ replicate 2336 7 @
                SYNC_HEADER @ [0, 2, 1, 1] @ replicate 2336 9) [] True 4096
           (\<lambda>p sz. if sz \<le> 4096 - p then 0 else 4096) [] = Inr s \<and>
      length (dst s) = 4096 \<and> dst s ! 5 = 7 \<and> dst s ! 2053 = 9) \<and>
   (\<exists>s. main (SYNC_HEADER @ [0, 2, 0, 2] @ [4, 4, 4, 4, 4, 4, 4, 4] @ replicate 2328 7)
         [] True 2048 (\<lambda>p sz. p + sz) [] = Inr s \<and>
      length (dst s) = 2048 \<and> dst s ! 0 = 7) \<and>
   (\<exists>s. main ([4, 4, 4, 4, 4, 4, 4, 4] @ replicate 2328 6) [] True 2048 (\<lambda>p sz. 0) [] =
         Inr s \<and>
      length (dst s) = 2048 \<and> dst s ! 0 = 6)"
proof -
  let ?img = "SYNC_HEADER @ [0, 2, 0, 1] @ replicate 2336 7 @
                SYNC_HEADER @ [0, 2, 1, 1] @ replicate 2336 (9 :: byte)"
  let ?pol = "\<lambda>p sz :: nat. if sz \<le> 4096 - p then 0 else 4096 :: nat"
  have h1: "take 12 ?img = SYNC_HEADER \<and> ?img ! 15 = 1 \<and> (16::nat) = 16 \<and> (2352::nat) = 2352 \<or>
           take 12 ?img = SYNC_HEADER \<and> ?img ! 15 = 2 \<and> (16::nat) = 24 \<and> (2352::nat) = 2352 \<or>
           take 12 ?img \<noteq> SYNC_HEADER \<and> (16::nat) = 8 \<and> (2352::nat) = 2336"
    by (simp add: SYNC_HEADER_def)
  have h2: "length ?img = 2 * 2352"
    by (simp add: SYNC_HEADER_def)
  have h3: "(0::nat) < 2" and h4: "(2::nat) * 2048 \<le> 4096"
    by simp_all
  from conversion_whole_sectors [OF h1 h2 h3 h4, where old = "[]" and pol = ?pol and ?buf0.0 = "[]"]
  obtain s where s: "main ?img [] True 4096 ?pol [] = Inr s" "length (dst s) = 2 * 2048"
    "\<forall>k < 2 * 2048. dst s ! k = ?img ! (16 + 2352 * (k div 2048) + k mod 2048)"
    by blast
  from s(3) [rule_format, of 5] have a: "dst s ! 5 = 7"
    by (simp add: SYNC_HEADER_def nth_append)
  from s(3) [rule_format, of 2053] have b: "dst s ! 2053 = 9"
    by (simp add: SYNC_HEADER_def nth_append)
  have mode1: "\<exists>s. main ?img [] True 4096 ?pol [] = Inr s \<and>
      length (dst s) = 4096 \<and> dst s ! 5 = 7 \<and> dst s ! 2053 = 9"
    using s(1,2) a b by simp
  let ?img2 = "SYNC_HEADER @ [0, 2, 0, 2] @ [4, 4, 4, 4, 4, 4, 4, 4] @ replicate 2328 (7 :: byte)"
  have g1: "take 12 ?img2 = SYNC_HEADER \<and> ?img2 ! 15 = 1 \<and> (24::nat) = 16 \<and> (2352::nat) = 2352 \<or>
           take 12 ?img2 = SYNC_HEADER \<and> ?img2 ! 15 = 2 \<and> (24::nat) = 24 \<and> (2352::nat) = 2352 \<or>
           take 12 ?img2 \<noteq> SYNC_HEADER \<and> (24::nat) = 8 \<and> (2352::nat) = 2336"
    by (simp add: SYNC_HEADER_def)
  have g2: "length ?img2 = 1 * 2352"
    by (simp add: SYNC_HEADER_def)
  have g3: "(0::nat) < 1" and g4: "(1::nat) * 2048 \<le> 2048"
    by simp_all
  from conversion_whole_sectors [OF g1 g2 g3 g4, where old = "[]" and pol = "\<lambda>p sz. p + sz"
    and ?buf0.0 = "[]"]
  obtain s2 where s2: "main ?img2 [] True 2048 (\<lambda>p sz. p + sz) [] = Inr s2"
    "length (dst s2) = 1 * 2048"
    "\<forall>k < 1 * 2048. dst s2 ! k = ?img2 ! (24 + 2352 * (k div 2048) + k mod 2048)"
    by blast
  from s2(3) [rule_format, of 0] have "dst s2 ! 0 = 7"
    by (simp add: SYNC_HEADER_def nth_append)
  with s2(1,2) have mode2: "\<exists>s. main ?img2 [] True 2048 (\<lambda>p sz. p + sz) [] = Inr s \<and>
      length (dst s) = 2048 \<and> dst s ! 0 = 7"
    by simp
  let ?img3 = "[4, 4, 4, 4, 4, 4, 4, 4] @ replicate 2328 (6 :: byte)"
  have f1: "take 12 ?img3 = SYNC_HEADER \<and> ?img3 ! 15 = 1 \<and> (8::nat) = 16 \<and> (2336::nat) = 2352 \<or>
           take 12 ?img3 = SYNC_HEADER \<and> ?img3 ! 15 = 2 \<and> (8::nat) = 24 \<and> (2336::nat) = 2352 \<or>
           take 12 ?img3 \<noteq> SYNC_HEADER \<and> (8::nat) = 8 \<and> (2336::nat) = 2336"
    by (simp add: SYNC_HEADER_def)
  have f2: "length ?img3 = 1 * 2336"
    by simp
  from conversion_whole_sectors [OF f1 f2 g3 g4, where old = "[]" and pol = "\<lambda>p sz. 0"
    and ?buf0.0 = "[]"]
  obtain s3 where s3: "main ?img3 [] True 2048 (\<lambda>p sz. 0) [] = Inr s3"
    "length (dst s3) = 1 * 2048"
    "\<forall>k < 1 * 2048. dst s3 ! k = ?img3 ! (8 + 2336 * (k div 2048) + k mod 2048)"
    by blast
  from s3(3) [rule_format, of 0] have "dst s3 ! 0 = 6"
    by (simp add: nth_append)
  with s3(1,2) have mode3: "\<exists>s. main ?img3 [] True 2048 (\<lambda>p sz. 0) [] = Inr s \<and>
      length (dst s) = 2048 \<and> dst s ! 0 = 6"
    by simp
  from mode1 mode2 mode3 show ?thesis
    by blast
qed

text \<open>
  C2. After the probe read of 16 bytes, the layout is decided by the first 12 bytes of
  the source and its byte 15 alone. When the first 12 bytes are not the sync header,
  the layout is Mode 2 / 2336: header size 8, sector size 2336 and \<^verbatim>\<open>mode\<close> 0, for which
  the loop checks no mode. When they are, byte 15 equal to 1 gives Mode 1 / 2352 with
  header size 16, byte 15 equal to 2 gives Mode 2 / 2352 with header size 24, and any
  other byte ends the run through \<^verbatim>\<open>die\<close> with that byte as the unsupported mode.
  Any other source with the same first 16 bytes gets the same layout or the same
  failure.
\<close>

theorem layout_detection:
  assumes "16 \<le> length img"
  shows "\<exists>s2. xfread 16 \<lparr>src = img, src_pos = 0, dst = d, pending = q, room = r, policy = pol,
        buf = buf0, stderr = w\<rparr> =
        Inr s2 \<and>
      main_detect s2 =
        (if take 12 img \<noteq> SYNC_HEADER then Inr (0, 8, 2336)
         else if img ! 15 = 1 then Inr (1, 16, 2352)
         else if img ! 15 = 2 then Inr (2, 24, 2352)
         else Inl (Unsupported_mode (img ! 15), fclose_dst s2)) \<and>
      (\<forall>img' d' q' r' pol' buf0' w' s2'.
         take 16 img' = take 16 img \<and>
         xfread 16 \<lparr>src = img', src_pos = 0, dst = d', pending = q', room = r', policy = pol',
           buf = buf0', stderr = w'\<rparr> =
           Inr s2' \<longrightarrow>
         map_sum fst id (main_detect s2') = map_sum fst id (main_detect s2))"
proof -
  let ?s2 = "\<lparr>src = img, src_pos = 16, dst = d, pending = q, room = r, policy = pol,
    buf = take 16 img @ drop 16 buf0, stderr = w\<rparr>"
  have rd: "xfread 16 \<lparr>src = img, src_pos = 0, dst = d, pending = q, room = r, policy = pol,
        buf = buf0, stderr = w\<rparr> =
      Inr ?s2"
    using assms by (rule probe_read)
  have det: "main_detect ?s2 =
        (if take 12 img \<noteq> SYNC_HEADER then Inr (0, 8, 2336)
         else if img ! 15 = 1 then Inr (1, 16, 2352)
         else if img ! 15 = 2 then Inr (2, 24, 2352)
         else Inl (Unsupported_mode (img ! 15), fclose_dst ?s2))"
    using assms by (subst main_detect_probe [where ys = "drop 16 buf0"]) (simp_all add: die_def)
  have "map_sum fst id (main_detect s2') = map_sum fst id (main_detect ?s2)"
    if eq: "take 16 img' = take 16 img"
      and rd': "xfread 16
        \<lparr>src = img', src_pos = 0, dst = d', pending = q', room = r', policy = pol',
           buf = buf0', stderr = w'\<rparr> = Inr s2'"
    for img' d' q' r' pol' buf0' w' s2'
  proof -
    have "length (take 16 img') = 16"
      using assms by (simp add: eq)
    then have len': "16 \<le> length img'"
      by simp
    have s2': "s2' = \<lparr>src = img', src_pos = 16, dst = d', pending = q', room = r',
        policy = pol', buf = take 16 img' @ drop 16 buf0', stderr = w'\<rparr>"
      using rd' unfolding probe_read [OF len'] by simp
    have "take 12 (take 16 img') = take 12 (take 16 img)"
      by (simp add: eq)
    then have sync: "take 12 img' = take 12 img"
      by (simp add: min_def)
    have "take 16 img' ! 15 = take 16 img ! 15"
      by (simp add: eq)
    then have mode: "img' ! 15 = img ! 15"
      by simp
    have "main_detect s2' =
        (if take 12 img \<noteq> SYNC_HEADER then Inr (0, 8, 2336)
         else if img ! 15 = 1 then Inr (1, 16, 2352)
         else if img ! 15 = 2 then Inr (2, 24, 2352)
         else Inl (Unsupported_mode (img ! 15), fclose_dst s2'))"
      unfolding s2' using len'
      by (subst main_detect_probe [where ys = "drop 16 buf0'"]) (simp_all add: sync mode die_def)
    then show ?thesis
      unfolding det by simp
  qed
  with rd det show ?thesis
    by blast
qed

theorem layout_detection_witness:
  "main_detect \<lparr>src = SYNC_HEADER @ [0, 2, 0, 2, 9], src_pos = 16, dst = [], pending = [],
       room = 0, policy = (\<lambda>p sz. 0), buf = SYNC_HEADER @ [0, 2, 0, 2], stderr = []\<rparr> =
     Inr (2, 24, 2352) \<and>
   map_sum fst id (main_detect \<lparr>src = SYNC_HEADER @ [0, 2, 0, 2, 4, 4], src_pos = 16, dst = [1],
       pending = [], room = 7, policy = (\<lambda>p sz. p + sz), buf = SYNC_HEADER @ [0, 2, 0, 2, 8],
       stderr = []\<rparr>) = Inr (2, 24, 2352)"
proof -
  let ?img = "SYNC_HEADER @ [0, 2, 0, 2, 9 :: byte]"
  let ?img' = "SYNC_HEADER @ [0, 2, 0, 2, 4, 4 :: byte]"
  let ?s2 = "\<lparr>src = ?img, src_pos = 16, dst = [], pending = [], room = 0, policy = (\<lambda>p sz. 0),
       buf = SYNC_HEADER @ [0, 2, 0, 2], stderr = []\<rparr>"
  let ?s2' = "\<lparr>src = ?img', src_pos = 16, dst = [1], pending = [],
       room = 7, policy = (\<lambda>p sz. p + sz), buf = SYNC_HEADER @ [0, 2, 0, 2, 8], stderr = []\<rparr>"
  have h: "16 \<le> length ?img"
    by (simp add: SYNC_HEADER_def)
  have rd: "xfread 16 \<lparr>src = ?img, src_pos = 0, dst = [], pending = [], room = 0,
        policy = (\<lambda>p sz. 0), buf = [], stderr = []\<rparr> = Inr ?s2"
    by (simp add: xfread_def fread_def SYNC_HEADER_def)
  have rd': "take 16 ?img' = take 16 ?img \<and>
      xfread 16 \<lparr>src = ?img', src_pos = 0, dst = [1], pending = [], room = 7,
        policy = (\<lambda>p sz. p + sz), buf = replicate 16 0 @ [8], stderr = []\<rparr> = Inr ?s2'"
    by (simp add: xfread_def fread_def SYNC_HEADER_def)
  from layout_detection [OF h, where d = "[]" and q = "[]" and r = 0 and pol = "\<lambda>p sz. 0"
    and ?buf0.0 = "[]" and w = "[]"] rd
  have a: "main_detect ?s2 =
        (if take 12 ?img \<noteq> SYNC_HEADER then Inr (0, 8, 2336)
         else if ?img ! 15 = 1 then Inr (1, 16, 2352)
         else if ?img ! 15 = 2 then Inr (2, 24, 2352)
         else Inl (Unsupported_mode (?img ! 15), fclose_dst ?s2))"
    and b: "\<forall>img' d' q' r' pol' buf0' w' s2'.
         take 16 img' = take 16 ?img \<and>
         xfread 16 \<lparr>src = img', src_pos = 0, dst = d', pending = q', room = r', policy = pol',
           buf = buf0', stderr = w'\<rparr> =
           Inr s2' \<longrightarrow>
         map_sum fst id (main_detect s2') = map_sum fst id (main_detect ?s2)"
    by simp_all
  from a have a': "main_detect ?s2 = Inr (2, 24, 2352)"
    by (simp add: SYNC_HEADER_def)
  from b [rule_format, OF rd'] a' show ?thesis
    by simp
qed

text \<open>
  C3. When the first 16 bytes carry the sync header and a mode byte other than 1 and 2,
  \<^verbatim>\<open>main\<close> exits through \<^verbatim>\<open>die\<close> with that byte as the unsupported mode. At
  that moment the source has been read up to offset 16 only (the probe; the size
  computation and the sector loop have not run), the destination, truncated on
  opening, is empty, and no warning has been printed.
\<close>

theorem unsupported_mode_fatal:
  assumes "16 \<le> length img" and "take 12 img = SYNC_HEADER"
    and "img ! 15 \<noteq> 1" and "img ! 15 \<noteq> 2"
  shows "main img old True space pol buf0 =
    Inl (Unsupported_mode (img ! 15),
         \<lparr>src = img, src_pos = 16, dst = [], pending = [], room = space, policy = pol,
          buf = take 16 img @ drop 16 buf0, stderr = []\<rparr>)"
  using assms by (rule main_unsupported)

theorem unsupported_mode_fatal_witness:
  "main (SYNC_HEADER @ [0, 2, 0, 7, 5, 5]) [1, 2, 3] True 4096 (\<lambda>p sz. p + sz) [] =
    Inl (Unsupported_mode 7,
         \<lparr>src = SYNC_HEADER @ [0, 2, 0, 7, 5, 5], src_pos = 16, dst = [], pending = [],
          room = 4096, policy = (\<lambda>p sz. p + sz), buf = SYNC_HEADER @ [0, 2, 0, 7],
          stderr = []\<rparr>)"
  using unsupported_mode_fatal [of "SYNC_HEADER @ [0, 2, 0, 7, 5, 5]" "[1, 2, 3]" 4096
    "\<lambda>p sz. p + sz" "[]"]
  by (simp add: SYNC_HEADER_def)

text \<open>
  C4. The number of sectors converted is \<open>length img div sz\<close> and the number of bytes
  dropped is \<open>length img mod sz\<close>. When the latter is not 0 the run still succeeds
  (given room for the payloads); the first message on \<^verbatim>\<open>stderr\<close> is the size warning
  with the sector size and the dropped byte count, every later message is a mode
  warning of the loop, and the destination holds the payloads of the
  \<open>length img div sz\<close> whole sectors only.
\<close>

theorem misaligned_tail_dropped:
  assumes "take 12 img = SYNC_HEADER \<and> img ! 15 = 1 \<and> mode = 1 \<and> hdr = 16 \<and> sz = 2352 \<or>
           take 12 img = SYNC_HEADER \<and> img ! 15 = 2 \<and> mode = 2 \<and> hdr = 24 \<and> sz = 2352 \<or>
           take 12 img \<noteq> SYNC_HEADER \<and> mode = 0 \<and> hdr = 8 \<and> sz = 2336"
    and "16 \<le> length img" and "length img mod sz \<noteq> 0"
    and "(length img div sz) * 2048 \<le> space"
  shows "\<exists>s. main img old True space pol buf0 = Inr s \<and>
      stderr s = Size_warning sz (length img mod sz) #
        map (\<lambda>i. Mode_warning i (img ! (i * sz + 15)) mode)
          (filter (\<lambda>i. mode \<noteq> 0 \<and> img ! (i * sz + 15) \<noteq> mode) [0..<length img div sz]) \<and>
      length (dst s) = (length img div sz) * 2048 \<and>
      dst s = concat (map (\<lambda>i. take 2048 (drop (i * sz + hdr) img)) [0..<length img div sz])"
proof -
  have geo: "hdr + 2048 \<le> sz"
    using assms(1) by auto
  have whole: "(length img div sz) * sz \<le> length img"
    by simp
  from main_ok [OF assms(1,2,4), where old = old and pol = pol and ?buf0.0 = buf0] assms(3)
  obtain s where s: "main img old True space pol buf0 = Inr s"
    "stderr s = Size_warning sz (length img mod sz) #
        map (\<lambda>i. Mode_warning i (img ! (i * sz + 15)) mode)
          (filter (\<lambda>i. mode \<noteq> 0 \<and> img ! (i * sz + 15) \<noteq> mode) [0..<length img div sz])"
    "dst s = concat (map (\<lambda>j. take 2048 (drop (j * sz + hdr) img)) [0..<length img div sz])"
    by (auto simp: MODE_OFFSET_def)
  have "length (dst s) = (length img div sz) * 2048"
    unfolding s(3) using geo whole by (rule payloads_length)
  then show ?thesis
    using s by blast
qed

theorem misaligned_tail_dropped_witness:
  "\<exists>s. main (SYNC_HEADER @ [0, 2, 0, 1] @ replicate 2336 7 @ replicate 20 1) [] True 2048
         (\<lambda>p sz. if sz \<le> 4096 - p then 0 else 4096) [] = Inr s \<and>
     stderr s = [Size_warning 2352 20] \<and> length (dst s) = 2048 \<and> dst s = replicate 2048 7"
proof -
  let ?img = "SYNC_HEADER @ [0, 2, 0, 1] @ replicate 2336 7 @ replicate 20 (1 :: byte)"
  have len: "length ?img = 2372"
    by (simp add: SYNC_HEADER_def)
  have h1: "take 12 ?img = SYNC_HEADER \<and> ?img ! 15 = 1 \<and> (1 :: byte) = 1 \<and>
        (16 :: nat) = 16 \<and> (2352 :: nat) = 2352 \<or>
      take 12 ?img = SYNC_HEADER \<and> ?img ! 15 = 2 \<and> (1 :: byte) = 2 \<and>
        (16 :: nat) = 24 \<and> (2352 :: nat) = 2352 \<or>
      take 12 ?img \<noteq> SYNC_HEADER \<and> (1 :: byte) = 0 \<and> (16 :: nat) = 8 \<and> (2352 :: nat) = 2336"
    by (simp add: SYNC_HEADER_def)
  have h2: "16 \<le> length ?img" and h3: "length ?img mod 2352 \<noteq> 0"
    and h4: "(length ?img div 2352) * 2048 \<le> 2048"
    unfolding len by simp_all
  from misaligned_tail_dropped [OF h1 h2 h3 h4, where old = "[]" and ?buf0.0 = "[]"
    and pol = "\<lambda>p sz. if sz \<le> 4096 - p then 0 else 4096"] show ?thesis
    unfolding len by (simp add: SYNC_HEADER_def)
qed

text \<open>
  C5. In a 2352-byte layout every sector whose byte 15 differs from the mode found in
  the first sector produces a mode warning with its index, the byte found and the mode
  expected; these are the only mode warnings, one per such sector, in ascending
  order. The run succeeds all the same, and every payload is taken at the header size
  of the layout chosen from the first sector.
\<close>

theorem mode_mismatch_warns_and_continues:
  assumes "img ! 15 = 1 \<and> mode = 1 \<and> hdr = 16 \<or> img ! 15 = 2 \<and> mode = 2 \<and> hdr = 24"
    and "take 12 img = SYNC_HEADER" and "16 \<le> length img"
    and "(length img div 2352) * 2048 \<le> space"
  shows "\<exists>s. main img old True space pol buf0 = Inr s \<and>
      dst s = concat (map (\<lambda>i. take 2048 (drop (i * 2352 + hdr) img))
                [0..<length img div 2352]) \<and>
      (\<forall>i < length img div 2352. img ! (i * 2352 + 15) \<noteq> mode \<longrightarrow>
         Mode_warning i (img ! (i * 2352 + 15)) mode \<in> set (stderr s)) \<and>
      filter (\<lambda>w. \<exists>i a b. w = Mode_warning i a b) (stderr s) =
        map (\<lambda>i. Mode_warning i (img ! (i * 2352 + 15)) mode)
          (filter (\<lambda>i. img ! (i * 2352 + 15) \<noteq> mode) [0..<length img div 2352])"
proof -
  have layout:
    "take 12 img = SYNC_HEADER \<and> img ! 15 = 1 \<and> mode = 1 \<and> hdr = 16 \<and> (2352 :: nat) = 2352 \<or>
     take 12 img = SYNC_HEADER \<and> img ! 15 = 2 \<and> mode = 2 \<and> hdr = 24 \<and> (2352 :: nat) = 2352 \<or>
     take 12 img \<noteq> SYNC_HEADER \<and> mode = 0 \<and> hdr = 8 \<and> (2352 :: nat) = 2336"
    using assms(1,2) by auto
  have mode: "mode \<noteq> 0"
    using assms(1) by auto
  let ?ws = "map (\<lambda>i. Mode_warning i (img ! (i * 2352 + 15)) mode)
          (filter (\<lambda>i. img ! (i * 2352 + 15) \<noteq> mode) [0..<length img div 2352])"
  from main_ok [OF layout assms(3,4), where old = old and pol = pol and ?buf0.0 = buf0] mode
  obtain s where s: "main img old True space pol buf0 = Inr s"
    "dst s = concat (map (\<lambda>j. take 2048 (drop (j * 2352 + hdr) img)) [0..<length img div 2352])"
    "stderr s = (if length img mod 2352 \<noteq> 0
        then [Size_warning 2352 (length img mod 2352)] else []) @ ?ws"
    by (auto simp: MODE_OFFSET_def)
  have "filter (\<lambda>w. \<exists>i a b. w = Mode_warning i a b) (stderr s) = ?ws"
    unfolding s(3) by (simp add: filter_mode_warnings)
  moreover have "\<forall>i < length img div 2352. img ! (i * 2352 + 15) \<noteq> mode \<longrightarrow>
         Mode_warning i (img ! (i * 2352 + 15)) mode \<in> set (stderr s)"
    unfolding s(3) by auto
  ultimately show ?thesis
    using s(1,2) by blast
qed

theorem mode_mismatch_warns_and_continues_witness:
  "\<exists>s. main (SYNC_HEADER @ [0, 2, 0, 1] @ replicate 2336 7 @
                SYNC_HEADER @ [0, 2, 1, 2] @ replicate 2336 9) [] True 4096
           (\<lambda>p sz. if sz \<le> 4096 - p then 0 else 4096) [] = Inr s \<and>
     Mode_warning 1 2 1 \<in> set (stderr s) \<and>
     dst s = concat (map (\<lambda>i. take 2048 (drop (i * 2352 + 16)
               (SYNC_HEADER @ [0, 2, 0, 1] @ replicate 2336 7 @
                SYNC_HEADER @ [0, 2, 1, 2] @ replicate 2336 9))) [0..<2])"
proof -
  let ?img = "SYNC_HEADER @ [0, 2, 0, 1] @ replicate 2336 7 @
                SYNC_HEADER @ [0, 2, 1, 2] @ replicate 2336 (9 :: byte)"
  have len: "length ?img = 4704"
    by (simp add: SYNC_HEADER_def)
  have h1: "?img ! 15 = 1 \<and> (1 :: byte) = 1 \<and> (16 :: nat) = 16 \<or>
      ?img ! 15 = 2 \<and> (1 :: byte) = 2 \<and> (16 :: nat) = 24"
    by (simp add: SYNC_HEADER_def)
  have h2: "take 12 ?img = SYNC_HEADER"
    by (simp add: SYNC_HEADER_def)
  have h3: "16 \<le> length ?img" and h4: "(length ?img div 2352) * 2048 \<le> 4096"
    unfolding len by simp_all
  have m: "?img ! (1 * 2352 + 15) = 2"
    by (simp add: SYNC_HEADER_def nth_append)
  from mode_mismatch_warns_and_continues [OF h1 h2 h3 h4, where old = "[]" and ?buf0.0 = "[]"
    and pol = "\<lambda>p sz. if sz \<le> 4096 - p then 0 else 4096"]
  obtain s where s: "main ?img [] True 4096 (\<lambda>p sz. if sz \<le> 4096 - p then 0 else 4096) [] = Inr s"
    "dst s = concat (map (\<lambda>i. take 2048 (drop (i * 2352 + 16) ?img)) [0..<2])"
    "\<forall>i < 2. ?img ! (i * 2352 + 15) \<noteq> 1 \<longrightarrow>
         Mode_warning i (?img ! (i * 2352 + 15)) 1 \<in> set (stderr s)"
    unfolding len by auto
  from s(3) [rule_format, of 1] have "Mode_warning 1 2 1 \<in> set (stderr s)"
    unfolding m by simp
  then show ?thesis
    using s(1,2) by blast
qed

text \<open>
  C6. In each of the three layouts, a loop iteration whose sector is there to be read
  succeeds when the destination has room for 2048 more bytes, and then hands exactly
  2048 bytes to the destination stream: the bytes of \<^verbatim>\<open>buf\<close> from the header size on,
  which are the 2048 bytes of the source that follow the header of that sector. The
  same holds of every iteration that succeeds, with room or without.
\<close>

theorem payload_size_invariant:
  assumes "hdr = 16 \<and> sz = 2352 \<or> hdr = 24 \<and> sz = 2352 \<or> hdr = 8 \<and> sz = 2336"
    and "src_pos s + sz \<le> length (src s)"
  shows "(length (dst s) + length (pending s) + 2048 \<le> room s \<longrightarrow>
           (\<exists>s'. main_sector i hdr sz mode s = Inr s' \<and>
              dst s' @ pending s' = dst s @ pending s @ take 2048 (drop hdr (buf s')) \<and>
              take 2048 (drop hdr (buf s')) = take 2048 (drop (src_pos s + hdr) (src s)) \<and>
              length (take 2048 (drop hdr (buf s'))) = 2048)) \<and>
         (\<forall>s'. main_sector i hdr sz mode s = Inr s' \<longrightarrow>
           dst s' @ pending s' = dst s @ pending s @ take 2048 (drop hdr (buf s')) \<and>
           take 2048 (drop hdr (buf s')) = take 2048 (drop (src_pos s + hdr) (src s)) \<and>
           length (take 2048 (drop hdr (buf s'))) = 2048)"
proof -
  have geo: "hdr + 2048 \<le> sz" "MODE_OFFSET < sz"
    using assms(1) by (auto simp: MODE_OFFSET_def)
  have succeeds: "\<exists>s'. main_sector i hdr sz mode s = Inr s'"
    if "length (dst s) + length (pending s) + 2048 \<le> room s"
    using main_sector_ok [OF geo assms(2) that, of i mode] by blast
  have payload: "dst s' @ pending s' = dst s @ pending s @ take 2048 (drop hdr (buf s')) \<and>
      take 2048 (drop hdr (buf s')) = take 2048 (drop (src_pos s + hdr) (src s)) \<and>
      length (take 2048 (drop hdr (buf s'))) = 2048"
    if run: "main_sector i hdr sz mode s = Inr s'" for s'
  proof -
    note a = main_sector_accepts [OF geo assms(2) run]
    have "length (take 2048 (drop (src_pos s + hdr) (src s))) = 2048"
      using geo(1) assms(2) by simp
    with a show ?thesis
      by simp
  qed
  from succeeds payload show ?thesis
    by blast
qed

theorem payload_size_invariant_witness:
  "\<exists>s'. main_sector 0 8 2336 0
       \<lparr>src = [4, 4, 4, 4, 4, 4, 4, 4] @ replicate 2328 5, src_pos = 0, dst = [1], pending = [2],
        room = 5000, policy = (\<lambda>p sz. if sz \<le> 4096 - p then 0 else 4096), buf = [],
        stderr = []\<rparr> = Inr s' \<and>
     dst s' @ pending s' = [1, 2] @ take 2048 (drop 8 (buf s')) \<and>
     take 2048 (drop 8 (buf s')) = replicate 2048 5 \<and>
     length (take 2048 (drop 8 (buf s'))) = 2048"
proof -
  let ?s = "\<lparr>src = [4, 4, 4, 4, 4, 4, 4, 4] @ replicate 2328 (5 :: byte), src_pos = 0, dst = [1],
        pending = [2], room = 5000, policy = (\<lambda>p sz. if sz \<le> 4096 - p then 0 else 4096),
        buf = [], stderr = []\<rparr>"
  have h1: "(8 :: nat) = 16 \<and> (2336 :: nat) = 2352 \<or> (8 :: nat) = 24 \<and> (2336 :: nat) = 2352 \<or>
      (8 :: nat) = 8 \<and> (2336 :: nat) = 2336"
    by simp
  have h2: "src_pos ?s + 2336 \<le> length (src ?s)"
    by simp
  have h3: "length (dst ?s) + length (pending ?s) + 2048 \<le> room ?s"
    by simp
  from payload_size_invariant [OF h1 h2, of 0 0] h3
  obtain s' where run: "main_sector 0 8 2336 0 ?s = Inr s'"
    and "dst s' @ pending s' = dst ?s @ pending ?s @ take 2048 (drop 8 (buf s')) \<and>
      take 2048 (drop 8 (buf s')) = take 2048 (drop (src_pos ?s + 8) (src ?s)) \<and>
      length (take 2048 (drop 8 (buf s'))) = 2048"
    by blast
  then have "dst s' @ pending s' = [1, 2] @ take 2048 (drop 8 (buf s')) \<and>
     take 2048 (drop 8 (buf s')) = replicate 2048 5 \<and>
     length (take 2048 (drop 8 (buf s'))) = 2048"
    by simp
  with run show ?thesis
    by blast
qed

text \<open>
  C7. For a destination that can be opened, how the run ends, what the destination
  holds afterwards and what is printed are the same whatever the destination file
  held before and whatever the scratch buffer held at the start.
\<close>

theorem conversion_deterministic:
  "failure (main img old True space pol buf0) = failure (main img old' True space pol buf0') \<and>
   dst (final (main img old True space pol buf0)) =
     dst (final (main img old' True space pol buf0')) \<and>
   stderr (final (main img old True space pol buf0)) =
     stderr (final (main img old' True space pol buf0'))"
proof (cases "length img < 16")
  case True
  then show ?thesis
    by (simp add: main_short failure_def final_def)
next
  case False
  then have len: "16 \<le> length img"
    by simp
  from layout_cases [of img] consider
    (unsupported) "take 12 img = SYNC_HEADER" "img ! 15 \<noteq> 1" "img ! 15 \<noteq> 2"
  | (layout) mode :: byte and hdr sz :: nat where
      "take 12 img = SYNC_HEADER \<and> img ! 15 = 1 \<and> mode = 1 \<and> hdr = 16 \<and> sz = 2352 \<or>
       take 12 img = SYNC_HEADER \<and> img ! 15 = 2 \<and> mode = 2 \<and> hdr = 24 \<and> sz = 2352 \<or>
       take 12 img \<noteq> SYNC_HEADER \<and> mode = 0 \<and> hdr = (8 :: nat) \<and> sz = (2336 :: nat)"
    by blast
  then show ?thesis
  proof cases
    case unsupported
    with len show ?thesis
      by (simp add: main_unsupported failure_def final_def)
  next
    case layout
    note geo = layout_geometry [OF layout]
    define w where
      "w = (if length img mod sz \<noteq> 0 then [Size_warning sz (length img mod sz)] else [])"
    define st where "st = (\<lambda>buf0.
      \<lparr>src = img, src_pos = 0, dst = [], pending = [], room = space, policy = pol,
       buf = take 16 img @ drop 16 buf0, stderr = w\<rparr>)"
    have m: "main img old True space pol buf0 =
        (case main_loop 0 (length img div sz) hdr sz mode (st buf0) of
           Inl e \<Rightarrow> Inl e | Inr s \<Rightarrow> Inr (fclose_dst s))"
      for old buf0
      unfolding st_def w_def using layout len by (rule main_detected)
    have eq: "st buf0' = (st buf0)\<lparr>buf := take 16 img @ drop 16 buf0'\<rparr>"
      by (simp add: st_def)
    from main_loop_buf [OF geo, where i = 0 and n = "length img div sz" and mode = mode
      and s = "st buf0" and b = "take 16 img @ drop 16 buf0'"]
    obtain b' where "main_loop 0 (length img div sz) hdr sz mode (st buf0') =
        map_sum (map_prod id (\<lambda>t. t\<lparr>buf := b'\<rparr>)) (\<lambda>t. t\<lparr>buf := b'\<rparr>)
          (main_loop 0 (length img div sz) hdr sz mode (st buf0))"
      unfolding eq by blast
    from close_buf [OF this] show ?thesis
      unfolding m by simp
  qed
qed

theorem conversion_deterministic_witness:
  "failure (main (3 # replicate 2345 0) [] True 2048 (\<lambda>p sz. p + sz) []) =
     failure (main (3 # replicate 2345 0) [9, 9, 9] True 2048 (\<lambda>p sz. p + sz) [1, 2]) \<and>
   dst (final (main (3 # replicate 2345 0) [] True 2048 (\<lambda>p sz. p + sz) [])) =
     dst (final (main (3 # replicate 2345 0) [9, 9, 9] True 2048 (\<lambda>p sz. p + sz) [1, 2])) \<and>
   stderr (final (main (3 # replicate 2345 0) [] True 2048 (\<lambda>p sz. p + sz) [])) =
     stderr (final (main (3 # replicate 2345 0) [9, 9, 9] True 2048 (\<lambda>p sz. p + sz) [1, 2]))"
  by (rule conversion_deterministic)

text \<open>
  C8. When the destination has room for the payloads, the run succeeds and leaves the
  source stream at offset \<open>(length img div sz) * sz\<close>, right after the last whole sector
  and \<open>length img mod sz\<close> bytes before the end; nothing is left in the buffer of the
  destination stream, and the destination holds \<open>(length img div sz) * 2048\<close> bytes,
  the payloads of the whole sectors and nothing for the remainder.
\<close>

theorem stream_positions_after_loop:
  assumes "take 12 img = SYNC_HEADER \<and> img ! 15 = 1 \<and> hdr = 16 \<and> sz = 2352 \<or>
           take 12 img = SYNC_HEADER \<and> img ! 15 = 2 \<and> hdr = 24 \<and> sz = 2352 \<or>
           take 12 img \<noteq> SYNC_HEADER \<and> hdr = 8 \<and> sz = 2336"
    and "16 \<le> length img" and "(length img div sz) * 2048 \<le> space"
  shows "\<exists>s. main img old True space pol buf0 = Inr s \<and>
      src_pos s = (length img div sz) * sz \<and>
      src_pos s + length img mod sz = length img \<and>
      pending s = [] \<and>
      length (dst s) = (length img div sz) * 2048 \<and>
      dst s = concat (map (\<lambda>i. take 2048 (drop (i * sz + hdr) img)) [0..<length img div sz])"
proof -
  from assms(1) obtain mode :: byte where
    layout: "take 12 img = SYNC_HEADER \<and> img ! 15 = 1 \<and> mode = 1 \<and> hdr = 16 \<and> sz = 2352 \<or>
           take 12 img = SYNC_HEADER \<and> img ! 15 = 2 \<and> mode = 2 \<and> hdr = 24 \<and> sz = 2352 \<or>
           take 12 img \<noteq> SYNC_HEADER \<and> mode = 0 \<and> hdr = 8 \<and> sz = 2336"
    by blast
  have geo: "hdr + 2048 \<le> sz"
    using assms(1) by auto
  have whole: "(length img div sz) * sz \<le> length img"
    by simp
  from main_ok [OF layout assms(2,3), where old = old and pol = pol and ?buf0.0 = buf0]
  obtain s where s: "main img old True space pol buf0 = Inr s"
    "src_pos s = (length img div sz) * sz" "pending s = []"
    "dst s = concat (map (\<lambda>j. take 2048 (drop (j * sz + hdr) img)) [0..<length img div sz])"
    by blast
  have "length (dst s) = (length img div sz) * 2048"
    unfolding s(4) using geo whole by (rule payloads_length)
  moreover have "src_pos s + length img mod sz = length img"
    unfolding s(2) by simp
  ultimately show ?thesis
    using s by blast
qed

theorem stream_positions_after_loop_witness:
  "\<exists>s. main (3 # replicate 2345 0) [] True 2048 (\<lambda>p sz. if sz \<le> 4096 - p then 0 else 4096) [] =
       Inr s \<and>
     src_pos s = 2336 \<and> src_pos s + 10 = 2346 \<and> pending s = [] \<and> length (dst s) = 2048 \<and>
     dst s = replicate 2048 0"
  using stream_positions_after_loop [of "3 # replicate 2345 0" 8 2336 2048 "[]"
    "\<lambda>p sz. if sz \<le> 4096 - p then 0 else 4096" "[]"]
  by (simp add: SYNC_HEADER_def)

text \<open>
  C9. A source of at least 16 bytes that is shorter than the sector size of its
  layout is converted successfully, whatever room the destination has: nothing is
  written, and the only message is the size warning, which reports the whole length
  as dropped.
\<close>

theorem short_image_empty_output:
  assumes "take 12 img = SYNC_HEADER \<and> (img ! 15 = 1 \<or> img ! 15 = 2) \<and> sz = 2352 \<or>
           take 12 img \<noteq> SYNC_HEADER \<and> sz = 2336"
    and "16 \<le> length img" and "length img < sz"
  shows "\<exists>s. main img old True space pol buf0 = Inr s \<and> dst s = [] \<and>
    stderr s = [Size_warning sz (length img)]"
proof -
  from assms(1) obtain mode :: byte and hdr :: nat where
    layout: "take 12 img = SYNC_HEADER \<and> img ! 15 = 1 \<and> mode = 1 \<and> hdr = 16 \<and> sz = 2352 \<or>
           take 12 img = SYNC_HEADER \<and> img ! 15 = 2 \<and> mode = 2 \<and> hdr = 24 \<and> sz = 2352 \<or>
           take 12 img \<noteq> SYNC_HEADER \<and> mode = 0 \<and> hdr = 8 \<and> sz = 2336"
    by blast
  have n: "length img div sz = 0" "length img mod sz = length img"
    using assms(3) by simp_all
  have "length img \<noteq> 0"
    using assms(2) by auto
  with main_ok [OF layout assms(2), where space = space and old = old and pol = pol
    and ?buf0.0 = buf0] show ?thesis
    unfolding n by auto
qed

theorem short_image_empty_output_witness:
  "(\<exists>s. main (3 # replicate 99 0) [1, 2, 3] True 0 (\<lambda>p sz. p + sz) [] = Inr s \<and> dst s = [] \<and>
      stderr s = [Size_warning 2336 100]) \<and>
   (\<exists>s. main (SYNC_HEADER @ [0, 2, 0, 1]) [1, 2, 3] True 0 (\<lambda>p sz. 0) [] = Inr s \<and> dst s = [] \<and>
      stderr s = [Size_warning 2352 16])"
proof -
  have a: "take 12 (3 # replicate 99 0) = SYNC_HEADER \<and>
      ((3 # replicate 99 0) ! 15 = (1 :: byte) \<or> (3 # replicate 99 0) ! 15 = (2 :: byte)) \<and>
      (2336 :: nat) = 2352 \<or>
      take 12 (3 # replicate 99 0) \<noteq> SYNC_HEADER \<and> (2336 :: nat) = 2336"
    by (simp add: SYNC_HEADER_def)
  have b: "take 12 (SYNC_HEADER @ [0, 2, 0, 1]) = SYNC_HEADER \<and>
      ((SYNC_HEADER @ [0, 2, 0, 1]) ! 15 = 1 \<or> (SYNC_HEADER @ [0, 2, 0, 1]) ! 15 = 2) \<and>
      (2352 :: nat) = 2352 \<or>
      take 12 (SYNC_HEADER @ [0, 2, 0, 1]) \<noteq> SYNC_HEADER \<and> (2352 :: nat) = 2336"
    by (simp add: SYNC_HEADER_def)
  have c: "length (SYNC_HEADER @ [0, 2, 0, 1 :: byte]) = 16"
    by (simp add: SYNC_HEADER_def)
  from short_image_empty_output [OF a, where old = "[1, 2, 3]" and space = 0 and ?buf0.0 = "[]"
      and pol = "\<lambda>p sz. p + sz"]
    short_image_empty_output [OF b, where old = "[1, 2, 3]" and space = 0 and ?buf0.0 = "[]"
      and pol = "\<lambda>p sz. 0"]
  show ?thesis
    unfolding c by simp
qed

text \<open>
  C10. However the run ends, no mode warning for sector 0 is ever printed, and for a
  source whose first 12 bytes are not the sync header (Mode 2 / 2336) no mode warning
  is printed for any sector.
\<close>

theorem no_spurious_mode_warning:
  "Mode_warning 0 a b \<notin> set (stderr (final (main img old writable space pol buf0))) \<and>
   (take 12 img \<noteq> SYNC_HEADER \<longrightarrow>
      Mode_warning i a b \<notin> set (stderr (final (main img old writable space pol buf0))))"
proof (cases "writable \<and> 16 \<le> length img")
  case False
  then have "stderr (final (main img old writable space pol buf0)) = []"
    by (cases writable) (simp_all add: main_unwritable main_short final_def)
  then show ?thesis
    by simp
next
  case True
  then have w: "writable = True" and len: "16 \<le> length img"
    by simp_all
  from layout_cases [of img] consider
    (unsupported) "take 12 img = SYNC_HEADER" "img ! 15 \<noteq> 1" "img ! 15 \<noteq> 2"
  | (layout) mode :: byte and hdr sz :: nat where
      "take 12 img = SYNC_HEADER \<and> img ! 15 = 1 \<and> mode = 1 \<and> hdr = 16 \<and> sz = 2352 \<or>
       take 12 img = SYNC_HEADER \<and> img ! 15 = 2 \<and> mode = 2 \<and> hdr = 24 \<and> sz = 2352 \<or>
       take 12 img \<noteq> SYNC_HEADER \<and> mode = 0 \<and> hdr = (8 :: nat) \<and> sz = (2336 :: nat)"
    by blast
  then show ?thesis
  proof cases
    case unsupported
    with len show ?thesis
      by (simp add: w main_unsupported final_def)
  next
    case layout
    define ws where
      "ws = (if length img mod sz \<noteq> 0 then [Size_warning sz (length img mod sz)] else [])"
    define st where "st =
      \<lparr>src = img, src_pos = 0, dst = [], pending = [], room = space, policy = pol,
       buf = take 16 img @ drop 16 buf0, stderr = ws\<rparr>"
    have "main img old writable space pol buf0 =
        (case main_loop 0 (length img div sz) hdr sz mode st of
           Inl e \<Rightarrow> Inl e | Inr s \<Rightarrow> Inr (fclose_dst s))"
      unfolding st_def ws_def w using layout len by (rule main_detected)
    then have m: "stderr (final (main img old writable space pol buf0)) =
        stderr (final (main_loop 0 (length img div sz) hdr sz mode st))"
      by (simp add: close_stderr)
    have st: "src st = img" "src_pos st = 0"
      by (simp_all add: st_def)
    have sized: "Mode_warning j a b \<notin> set (stderr st)" for j
      by (simp add: st_def ws_def)
    have *: "Mode_warning j a b \<in> set (stderr (final (main img old writable space pol buf0))) \<Longrightarrow>
        mode \<noteq> 0 \<and> 1 \<le> j" for j
      unfolding m using main_first_sector [OF layout st] sized by blast
    have "Mode_warning 0 a b \<notin> set (stderr (final (main img old writable space pol buf0)))"
      using * [of 0] by auto
    moreover have "Mode_warning i a b \<notin> set (stderr (final (main img old writable space pol buf0)))"
      if "take 12 img \<noteq> SYNC_HEADER"
      using * [of i] that layout by auto
    ultimately show ?thesis
      by blast
  qed
qed

theorem no_spurious_mode_warning_witness:
  "Mode_warning 0 2 1 \<notin> set (stderr (final (main (SYNC_HEADER @ [0, 2, 0, 1] @ replicate 2336 7 @
      SYNC_HEADER @ [0, 2, 1, 2] @ replicate 2336 9) [] True 4096
      (\<lambda>p sz. if sz \<le> 4096 - p then 0 else 4096) []))) \<and>
   Mode_warning 1 0 0 \<notin> set (stderr (final (main (3 # replicate 4671 0) [] True 4096
      (\<lambda>p sz. p + sz) [])))"
proof -
  have h: "take 12 (3 # replicate 4671 (0 :: byte)) \<noteq> SYNC_HEADER"
    by (simp add: SYNC_HEADER_def)
  from no_spurious_mode_warning [of 2 1 "SYNC_HEADER @ [0, 2, 0, 1] @ replicate 2336 7 @
      SYNC_HEADER @ [0, 2, 1, 2] @ replicate 2336 9" "[]" True 4096
      "\<lambda>p sz. if sz \<le> 4096 - p then 0 else 4096" "[]"]
    no_spurious_mode_warning [of 0 0 "3 # replicate 4671 0" "[]" True 4096 "\<lambda>p sz. p + sz" "[]" 1] h
  show ?thesis
    by blast
qed

end
